theory Spec2Isabelle
  imports Main "HOL-Library.AList" "HOL-Library.Word"
begin

section \<open>Protocol and message envelopes\<close>

text \<open>
  Modelled from the spec: the module \<^verbatim>\<open>src/lib/syscalls.js\<close>, required by both
  \<^verbatim>\<open>cluster.js\<close> and \<^verbatim>\<open>worker.js\<close>, is not among the sources. The
  spec describes it as the enumeration of the three system call kinds EXIT, SPIN_UP and
  SPIN_DOWN, a tagged variant; the code only ever compares its members with
  \<^verbatim>\<open>===\<close>. It is modelled as a datatype with three distinct constants.
\<close>

datatype syscall = EXIT | SPIN_UP | SPIN_DOWN

text \<open>
  The \<^verbatim>\<open>type\<close> field of an envelope: \<^verbatim>\<open>null\<close> marks a system call,
  \<^verbatim>\<open>undefined\<close> a plain message, any other value a named channel.
\<close>

datatype msg_type = TypeNull | TypeUndefined | TypeNamed string

text \<open>
  The envelope carries every field that one of the two sides reads or writes:
  \<^verbatim>\<open>type\<close>, \<^verbatim>\<open>message\<close>, \<^verbatim>\<open>call\<close>, \<^verbatim>\<open>count\<close> (read by
  the receivers) and \<^verbatim>\<open>system\<close>, \<^verbatim>\<open>WORKER_ID\<close> (written by
  \<^verbatim>\<open>Cluster.#terminateWorker\<close>). An absent \<^verbatim>\<open>call\<close>, \<^verbatim>\<open>system\<close>
  or \<^verbatim>\<open>WORKER_ID\<close> is \<open>None\<close>. Counts are integers.
\<close>

record envelope =
  m_type :: msg_type
  m_message :: string
  m_call :: "syscall option"
  m_system :: "syscall option"
  m_count :: int
  m_WORKER_ID :: "string option"

section \<open>Number formatting used by the identity generator\<close>

definition hex_digit :: "nat \<Rightarrow> char" where
  "hex_digit d = ''0123456789abcdef'' ! (d mod 16)"

text \<open>\<^verbatim>\<open>Number.prototype.toString(16)\<close> on a non-negative integer.\<close>

fun to_hex :: "nat \<Rightarrow> string" where
  "to_hex n = (if n < 16 then [hex_digit n] else to_hex (n div 16) @ [hex_digit (n mod 16)])"

declare to_hex.simps [simp del]

text \<open>\<^verbatim>\<open>toString(16)\<close> on any integer: a negative number prints a minus sign.\<close>

definition toString16 :: "int \<Rightarrow> string" where
  "toString16 i = (if i < 0 then CHR ''-'' # to_hex (nat (- i)) else to_hex (nat i))"

text \<open>\<^verbatim>\<open>String.prototype.padStart(n, c)\<close> with a one-character filler: never truncates.\<close>

definition padStart :: "nat \<Rightarrow> char \<Rightarrow> string \<Rightarrow> string" where
  "padStart n c s = replicate (n - length s) c @ s"

definition is_lower_hex :: "char \<Rightarrow> bool" where
  "is_lower_hex c = (c \<in> set ''0123456789abcdef'')"

text \<open>
  Reading a lowercase hexadecimal numeral back, most significant digit first: the value
  of a digit is its place in the digit string.
\<close>

definition hex_value :: "char \<Rightarrow> nat" where
  "hex_value c = length (takeWhile (\<lambda>d. d \<noteq> c) ''0123456789abcdef'')"

definition of_hex :: "string \<Rightarrow> nat" where
  "of_hex s = foldl (\<lambda>acc c. 16 * acc + hex_value c) 0 s"

section \<open>The Supervisor (\<^verbatim>\<open>src/lib/cluster.js\<close>)\<close>

subsection \<open>Data\<close>

text \<open>
  The listeners that the Supervisor attaches to the \<^verbatim>\<open>exit\<close> event of a worker
  handle: the default one of \<^verbatim>\<open>#spawnWorker\<close> (\<^verbatim>\<open>#onExit\<close> bound to the
  worker), and the closure of \<^verbatim>\<open>#terminateWorker\<close>, which captures the registry
  key it was called with.
\<close>

datatype exit_listener = DefaultOnExit | Terminated string

text \<open>
  A worker handle as the Supervisor sees it: the properties the code sets on it, the
  environment handed to \<^verbatim>\<open>cluster.fork\<close>, the \<^verbatim>\<open>exit\<close> listeners in
  registration order and the envelopes passed to \<^verbatim>\<open>worker.send\<close>.
\<close>

record worker =
  WORKER_ID :: string
  BIRTH_TIME :: int
  DEATH_TIME :: "int option"
  fork_env :: "string \<rightharpoonup> string"
  exit_listeners :: "exit_listener list"
  sent :: "envelope list"

text \<open>
  Worker handles are objects shared between the registry and the bound listeners, so they
  live in a store, a list indexed by address. An exit code is a number or
  \<^verbatim>\<open>null\<close>, a signal a name or \<^verbatim>\<open>null\<close>.
\<close>

type_synonym addr = nat

datatype event =
    Death addr "int option" "string option"
  | Restart addr "addr option" "int option" "string option"
  | Message addr envelope
  | MessageTyped string addr string

text \<open>
  The private fields of \<^verbatim>\<open>Cluster\<close> that decide what it does. The executable,
  its arguments, the working directory and the user and group identifiers are only handed
  on to \<^verbatim>\<open>cluster.setupPrimary\<close> and are left out, as are their accessors.
\<close>

record cluster =
  target_workers :: int
  env :: "string \<rightharpoonup> string"
  restart_on_error :: bool
  restart_on_signal :: bool
  restart_on_normal_exit :: bool
  min_restart_age :: int
  workers :: "(string \<times> addr) list"
  heap :: "worker list"
  emitted :: "event list"

text \<open>
  What one call of \<^verbatim>\<open>#spawnWorker\<close> reads from its surroundings: the clock at the
  identity generation (milliseconds, \<^verbatim>\<open>getTime()\<close>), the eight values of
  \<^verbatim>\<open>Math.floor(Math.random()*0x100)\<close>, which lie in 0..255, and the clock at
  \<^verbatim>\<open>BIRTH_TIME\<close>. The oracle gives these for the k-th spawn of the run.
\<close>

record spawn_env =
  id_clock :: int
  random_byte :: "nat \<Rightarrow> 8 word"
  birth_clock :: int

type_synonym spawn_oracle = "nat \<Rightarrow> spawn_env"

datatype js_error = TypeError | Error string

text \<open>
  A call either returns the new state or throws, and then the state reached at the
  throw stays behind: \<open>Inl (e, s)\<close>.
\<close>

type_synonym result = "(js_error \<times> cluster) + cluster"

subsection \<open>The constructor\<close>

record restart_opts =
  opt_error :: bool
  opt_signal :: bool
  opt_normal_exit :: bool
  opt_min_age :: int

definition default_restart :: restart_opts where
  "default_restart = \<lparr>opt_error = True, opt_signal = True, opt_normal_exit = False, opt_min_age = 500\<rparr>"

definition new_cluster :: "int \<Rightarrow> (string \<rightharpoonup> string) \<Rightarrow> restart_opts \<Rightarrow> cluster" where
  "new_cluster n e r =
     \<lparr>target_workers = n, env = e,
      restart_on_error = opt_error r, restart_on_signal = opt_signal r,
      restart_on_normal_exit = opt_normal_exit r, min_restart_age = opt_min_age r,
      workers = [], heap = [], emitted = []\<rparr>"

subsection \<open>The registry\<close>

text \<open>
  \<^verbatim>\<open>#workers\<close> is a plain object. Its keys are identities of at least 24
  characters, never array indices, so \<^verbatim>\<open>Object.keys\<close> lists them in insertion
  order: an assignment to a present key keeps its place, to a new key appends, which is
  \<open>AList.update\<close>; \<^verbatim>\<open>delete\<close> is \<open>AList.delete\<close>.
\<close>

definition keys :: "cluster \<Rightarrow> string list" where
  "keys s = map fst (workers s)"

definition running_workers :: "cluster \<Rightarrow> nat" where
  "running_workers s = length (keys s)"

text \<open>\<^verbatim>\<open>keys[i]\<close>: past the end it is \<^verbatim>\<open>undefined\<close>, which as a property key is the string "undefined".\<close>

definition key_at :: "string list \<Rightarrow> nat \<Rightarrow> string" where
  "key_at ks i = (if i < length ks then ks ! i else ''undefined'')"

text \<open>
  \<^verbatim>\<open>this.emit\<close>: the event is recorded in order. The listeners of the
  application are observers here; they do not call back into the Supervisor.
\<close>

definition emit :: "event \<Rightarrow> cluster \<Rightarrow> cluster" where
  "emit ev s = s\<lparr>emitted := emitted s @ [ev]\<rparr>"

subsection \<open>Spawning\<close>

text \<open>
  One round of the loop appends
  \<^verbatim>\<open>Math.floor(Math.random()*0x100).toString(16).padStart(2, '0')\<close>.
\<close>

definition byte_hex :: "8 word \<Rightarrow> string" where
  "byte_hex b = padStart 2 (CHR ''0'') (toString16 (int (unat b)))"

definition gen_WORKER_ID :: "spawn_env \<Rightarrow> string" where
  "gen_WORKER_ID e =
     foldl (\<lambda>wid i. wid @ byte_hex (random_byte e i))
       (padStart 8 (CHR ''0'') (toString16 (id_clock e div 1000)))
       [0..<8]"

definition spawnWorker :: "spawn_oracle \<Rightarrow> cluster \<Rightarrow> string \<times> cluster" where
  "spawnWorker ora s =
     (let e = ora (length (heap s));
          wid = gen_WORKER_ID e;
          a = length (heap s);
          w = \<lparr>WORKER_ID = wid, BIRTH_TIME = birth_clock e, DEATH_TIME = None,
               fork_env = [''WORKER_ID'' \<mapsto> wid] ++ env s,
               exit_listeners = [DefaultOnExit], sent = []\<rparr>
      in (wid, s\<lparr>heap := heap s @ [w], workers := AList.update wid a (workers s)\<rparr>))"

text \<open>\<^verbatim>\<open>for (let i = 0; i < n; ++i) this.#spawnWorker()\<close>\<close>

fun spawn_times :: "spawn_oracle \<Rightarrow> nat \<Rightarrow> cluster \<Rightarrow> cluster" where
  "spawn_times ora 0 s = s"
| "spawn_times ora (Suc n) s = spawn_times ora n (snd (spawnWorker ora s))"

definition start :: "spawn_oracle \<Rightarrow> cluster \<Rightarrow> cluster" where
  "start ora s = spawn_times ora (nat (target_workers s)) s"

definition spinUp :: "spawn_oracle \<Rightarrow> cluster \<Rightarrow> int \<Rightarrow> cluster" where
  "spinUp ora s x = spawn_times ora (nat x) (s\<lparr>target_workers := target_workers s + x\<rparr>)"

definition refreshWorkers :: "spawn_oracle \<Rightarrow> cluster \<Rightarrow> cluster" where
  "refreshWorkers ora s =
     (let more_processes = target_workers s - int (running_workers s)
      in spawn_times ora (nat more_processes) s)"

subsection \<open>Termination\<close>

definition exit_envelope :: "string \<Rightarrow> envelope" where
  "exit_envelope k =
     \<lparr>m_type = TypeNull, m_message = [], m_call = None, m_system = Some EXIT,
      m_count = 0, m_WORKER_ID = Some k\<rparr>"

definition terminateWorker :: "cluster \<Rightarrow> string \<Rightarrow> result" where
  "terminateWorker s k =
     (case map_of (workers s) k of
        None \<Rightarrow> Inl (TypeError, s)
      | Some a \<Rightarrow>
          (let w = heap s ! a;
               w1 = w\<lparr>exit_listeners := []\<rparr>;
               w2 = w1\<lparr>sent := sent w1 @ [exit_envelope k]\<rparr>;
               w3 = w2\<lparr>exit_listeners := exit_listeners w2 @ [Terminated k]\<rparr>
           in Inr (s\<lparr>heap := (heap s)[a := w3]\<rparr>)))"

fun terminate_each :: "string list \<Rightarrow> cluster \<Rightarrow> result" where
  "terminate_each [] s = Inr s"
| "terminate_each (k # ks) s =
     (case terminateWorker s k of
        Inl e \<Rightarrow> Inl e
      | Inr s' \<Rightarrow> terminate_each ks s')"

definition spinDown :: "cluster \<Rightarrow> int \<Rightarrow> bool \<Rightarrow> result" where
  "spinDown s x force =
     (let s1 = s\<lparr>target_workers := target_workers s - x\<rparr>
      in if force
         then (let ks = keys s1 in terminate_each (map (key_at ks) [0..<nat x]) s1)
         else Inr s1)"

text \<open>
  \<^verbatim>\<open>stop()\<close> in two parts: the synchronous loop over the keys, and the callback it
  hands to \<^verbatim>\<open>process.nextTick\<close>, which calls \<^verbatim>\<open>resolve\<close> if the registry
  is empty when it runs and does nothing otherwise.
\<close>

definition stop :: "cluster \<Rightarrow> result" where
  "stop s = terminate_each (keys s) s"

definition stop_tick :: "cluster \<Rightarrow> bool" where
  "stop_tick s = (length (keys s) = 0)"

subsection \<open>Exit notifications\<close>

text \<open>\<^verbatim>\<open>if (signal)\<close>: \<^verbatim>\<open>null\<close> and the empty string are falsy.\<close>

definition truthy :: "string option \<Rightarrow> bool" where
  "truthy signal = (case signal of None \<Rightarrow> False | Some n \<Rightarrow> n \<noteq> [])"

definition respawn :: "spawn_oracle \<Rightarrow> cluster \<Rightarrow> addr \<Rightarrow> int option \<Rightarrow> string option \<Rightarrow> cluster" where
  "respawn ora s a code signal =
     (let (new_WORKER_ID, s') = spawnWorker ora s
      in emit (Restart a (map_of (workers s') new_WORKER_ID) code signal) s')"

definition onExit :: "spawn_oracle \<Rightarrow> cluster \<Rightarrow> addr \<Rightarrow> int option \<Rightarrow> string option \<Rightarrow> int \<Rightarrow> cluster" where
  "onExit ora s a code signal now =
     (let s1 = s\<lparr>heap := (heap s)[a := (heap s ! a)\<lparr>DEATH_TIME := Some now\<rparr>]\<rparr>;
          w = heap s1 ! a;
          s2 = s1\<lparr>workers := AList.delete (WORKER_ID w) (workers s1)\<rparr>;
          s3 = emit (Death a code signal) s2;
          age = now - BIRTH_TIME w
      in if int (length (keys s3)) < target_workers s3
         then (if truthy signal
               then (if age \<ge> min_restart_age s3 \<and> restart_on_signal s3
                     then respawn ora s3 a code signal else s3)
               else if code \<noteq> Some 0
               then (if age \<ge> min_restart_age s3 \<and> restart_on_error s3
                     then respawn ora s3 a code signal else s3)
               else (if age \<ge> min_restart_age s3 \<and> restart_on_normal_exit s3
                     then respawn ora s3 a code signal else s3))
         else s3)"

text \<open>The closure that \<^verbatim>\<open>#terminateWorker\<close> registers for key \<open>k\<close> on worker \<open>a\<close>.\<close>

definition onTerminated :: "cluster \<Rightarrow> addr \<Rightarrow> string \<Rightarrow> int option \<Rightarrow> string option \<Rightarrow> cluster" where
  "onTerminated s a k code signal =
     (let s1 = (if truthy signal \<or> code \<noteq> Some 0 then emit (Death a code signal) s else s)
      in s1\<lparr>workers := AList.delete k (workers s1)\<rparr>)"

fun run_exit_listeners ::
  "spawn_oracle \<Rightarrow> exit_listener list \<Rightarrow> addr \<Rightarrow> int option \<Rightarrow> string option \<Rightarrow> int \<Rightarrow> cluster \<Rightarrow> cluster" where
  "run_exit_listeners ora [] a code signal now s = s"
| "run_exit_listeners ora (DefaultOnExit # ls) a code signal now s =
     run_exit_listeners ora ls a code signal now (onExit ora s a code signal now)"
| "run_exit_listeners ora (Terminated k # ls) a code signal now s =
     run_exit_listeners ora ls a code signal now (onTerminated s a k code signal)"

text \<open>
  The exit notification of the worker at address \<open>a\<close>: the \<^verbatim>\<open>exit\<close> event of the
  handle runs the listeners registered at that moment, in order. \<open>now\<close> is the clock a
  handler reads with \<^verbatim>\<open>new Date()\<close>. Only a handle that exists can notify.
\<close>

definition worker_exit :: "spawn_oracle \<Rightarrow> cluster \<Rightarrow> addr \<Rightarrow> int option \<Rightarrow> string option \<Rightarrow> int \<Rightarrow> cluster" where
  "worker_exit ora s a code signal now =
     (if a < length (heap s)
      then run_exit_listeners ora (exit_listeners (heap s ! a)) a code signal now s
      else s)"

subsection \<open>Messages\<close>

definition onSystemMessage :: "spawn_oracle \<Rightarrow> cluster \<Rightarrow> addr \<Rightarrow> envelope \<Rightarrow> result" where
  "onSystemMessage ora s a msg =
     (if m_call msg = Some SPIN_UP then Inr (spinUp ora s (m_count msg))
      else if m_call msg = Some SPIN_DOWN then spinDown s (m_count msg) False
      else Inr s)"

definition onMessage :: "spawn_oracle \<Rightarrow> cluster \<Rightarrow> addr \<Rightarrow> envelope \<Rightarrow> result" where
  "onMessage ora s a msg =
     (case m_type msg of
        TypeNull \<Rightarrow> onSystemMessage ora s a msg
      | TypeUndefined \<Rightarrow> Inr (emit (Message a msg) s)
      | TypeNamed t \<Rightarrow> Inr (emit (MessageTyped (''message-'' @ t) a (m_message msg)) s))"

subsection \<open>The promise of \<^verbatim>\<open>stop()\<close> on the event loop\<close>

text \<open>
  After \<^verbatim>\<open>stop()\<close> has returned, the event loop runs the callback given to
  \<^verbatim>\<open>process.nextTick\<close> and delivers exit notifications. The callback is
  queued once and runs once; nothing else ever calls \<^verbatim>\<open>resolve\<close>.
  \<open>resolve_calls\<close> counts the calls of \<^verbatim>\<open>resolve\<close>: the promise is
  resolved when it is not zero.
\<close>

datatype loop_event = NextTick | ExitNotification addr "int option" "string option" int

record stopping =
  sup :: cluster
  tick_pending :: bool
  resolve_calls :: nat

fun event_loop :: "spawn_oracle \<Rightarrow> loop_event list \<Rightarrow> stopping \<Rightarrow> stopping" where
  "event_loop ora [] st = st"
| "event_loop ora (NextTick # evs) st =
     event_loop ora evs
       (if tick_pending st
        then st\<lparr>tick_pending := False,
                resolve_calls := resolve_calls st + (if stop_tick (sup st) then 1 else 0)\<rparr>
        else st)"
| "event_loop ora (ExitNotification a code signal now # evs) st =
     event_loop ora evs (st\<lparr>sup := worker_exit ora (sup st) a code signal now\<rparr>)"

text \<open>\<^verbatim>\<open>stop()\<close> followed by the events \<open>evs\<close>. If the synchronous part throws, no promise is made.\<close>

definition stop_then :: "spawn_oracle \<Rightarrow> cluster \<Rightarrow> loop_event list \<Rightarrow> stopping" where
  "stop_then ora s evs =
     (case stop s of
        Inl (e, s') \<Rightarrow> \<lparr>sup = s', tick_pending = False, resolve_calls = 0\<rparr>
      | Inr s' \<Rightarrow> event_loop ora evs \<lparr>sup = s', tick_pending = True, resolve_calls = 0\<rparr>)"

subsection \<open>The public operations as one step function\<close>

datatype operation =
    Start
  | Stop
  | SpinUp int
  | SpinDown int bool
  | RefreshWorkers
  | SetEnv "string \<rightharpoonup> string"
  | SetRestartOnError bool
  | SetRestartOnSignal bool
  | SetRestartOnNormalExit bool
  | SetMinRestartAge int
  | WorkerMessage addr envelope
  | WorkerExit addr "int option" "string option" int

fun step :: "spawn_oracle \<Rightarrow> cluster \<Rightarrow> operation \<Rightarrow> result" where
  "step ora s Start = Inr (start ora s)"
| "step ora s Stop = stop s"
| "step ora s (SpinUp x) = Inr (spinUp ora s x)"
| "step ora s (SpinDown x force) = spinDown s x force"
| "step ora s RefreshWorkers = Inr (refreshWorkers ora s)"
| "step ora s (SetEnv e) = Inr (s\<lparr>env := e\<rparr>)"
| "step ora s (SetRestartOnError b) = Inr (s\<lparr>restart_on_error := b\<rparr>)"
| "step ora s (SetRestartOnSignal b) = Inr (s\<lparr>restart_on_signal := b\<rparr>)"
| "step ora s (SetRestartOnNormalExit b) = Inr (s\<lparr>restart_on_normal_exit := b\<rparr>)"
| "step ora s (SetMinRestartAge a) = Inr (s\<lparr>min_restart_age := a\<rparr>)"
| "step ora s (WorkerMessage a msg) = onMessage ora s a msg"
| "step ora s (WorkerExit a code signal now) = Inr (worker_exit ora s a code signal now)"

text \<open>The state a call leaves behind, whether it returned or threw.\<close>

definition state_of :: "result \<Rightarrow> cluster" where
  "state_of r = (case r of Inl (e, s) \<Rightarrow> s | Inr s \<Rightarrow> s)"

fun run :: "spawn_oracle \<Rightarrow> cluster \<Rightarrow> operation list \<Rightarrow> cluster" where
  "run ora s [] = s"
| "run ora s (c # cs) = run ora (state_of (step ora s c)) cs"

section \<open>The WorkerAgent (\<^verbatim>\<open>src/lib/worker.js\<close>)\<close>

subsection \<open>Data\<close>

text \<open>The classification object that accompanies an \<^verbatim>\<open>exit\<close> event of the agent.\<close>

datatype classification =
    Requested
  | Signalled string
  | Disconnected
  | Errored

text \<open>
  What a listener of the application does when it is called: it returns, or it throws an
  error, given here by its text.
\<close>

datatype behaviour = Returns | Throws string

text \<open>
  The listeners on the agent's \<^verbatim>\<open>exit\<close> event: those of the application, added
  with \<^verbatim>\<open>on\<close> or \<^verbatim>\<open>once\<close> and known by a token and what they do, and the
  one-time hook of \<^verbatim>\<open>#onExit\<close> that calls \<^verbatim>\<open>process.exit(0)\<close>.
\<close>

datatype agent_listener = UserOn nat behaviour | UserOnce nat behaviour | ExitProcess

text \<open>
  How a call ends: it returns, or an error propagates out of it. Either way it leaves a
  state behind.
\<close>

datatype 'a completion = Returned 'a | Thrown string 'a

definition state_after :: "'a completion \<Rightarrow> 'a" where
  "state_after c = (case c of Returned p \<Rightarrow> p | Thrown err p \<Rightarrow> p)"

text \<open>
  What the constructor registers with \<^verbatim>\<open>process.on\<close>: \<^verbatim>\<open>#onMessage\<close>
  bound to the instance, and \<^verbatim>\<open>#onExit\<close> bound to the instance, a
  classification and the \<^verbatim>\<open>exit\<close> flag. Instances are numbered in creation order.
\<close>

datatype proc_handler = HandleMessage nat | HandleExit nat classification bool

datatype arg = AStr string | ANum int

text \<open>
  The events of the process object that the agent listens to. A signal event passes the
  signal's name and number to its listeners, the monitoring hook the error and its origin.
\<close>

datatype proc_event =
    PMessage envelope
  | PSignal string int
  | PDisconnect
  | PUncaughtExceptionMonitor string string

text \<open>What is observed of a process: a listener was called, an event was emitted, the process exited.\<close>

datatype action =
    Ran nat classification "arg list"
  | EmittedMessage nat envelope
  | EmittedTyped nat string string
  | ProcessExit int

text \<open>
  One worker process: the static flag of the class, the \<^verbatim>\<open>exit\<close> listeners of
  every instance constructed so far, the handlers registered on the process by event
  name, the exit code once \<^verbatim>\<open>process.exit\<close> has been called, and what was
  observed, in order.
\<close>

record wproc =
  has_been_created :: bool
  instances :: "agent_listener list list"
  handlers :: "(string \<times> proc_handler) list"
  exit_code :: "int option"
  observed :: "action list"

definition fresh_process :: wproc where
  "fresh_process = \<lparr>has_been_created = False, instances = [], handlers = [],
     exit_code = None, observed = []\<rparr>"

definition CATCH_SIGNALS :: "string list" where
  "CATCH_SIGNALS = [''HUP'', ''INT'', ''QUIT'', ''TERM'', ''ABRT'', ''BREAK'']"

subsection \<open>The constructor\<close>

definition already_created :: js_error where
  "already_created = Error ''[cluster-ops] Worker instance has already been created in this process''"

text \<open>The registrations of the constructor, in its order, for the instance \<open>this\<close>.\<close>

definition agent_handlers :: "nat \<Rightarrow> (string \<times> proc_handler) list" where
  "agent_handlers this =
     [(''message'', HandleMessage this)]
     @ map (\<lambda>sig. (''SIG'' @ sig, HandleExit this (Signalled (''SIG'' @ sig)) True)) CATCH_SIGNALS
     @ [(''disconnect'', HandleExit this Disconnected True)]
     @ [(''uncaughtExceptionMonitor'', HandleExit this Errored False)]"

definition new_Worker :: "wproc \<Rightarrow> js_error + wproc" where
  "new_Worker p =
     (if has_been_created p then Inl already_created
      else (let this = length (instances p)
            in Inr (p\<lparr>has_been_created := True,
                     instances := instances p @ [[]],
                     handlers := handlers p @ agent_handlers this\<rparr>)))"

subsection \<open>Emitting \<^verbatim>\<open>exit\<close>\<close>

text \<open>
  \<^verbatim>\<open>emit\<close> calls the listeners registered at that moment in registration order. A
  \<^verbatim>\<open>once\<close> listener is taken off the instance just before it is called. A listener
  that throws ends the \<^verbatim>\<open>emit\<close>: the listeners after it are not called, and
  \<^verbatim>\<open>emit\<close> catches nothing, so the error propagates to its caller.
  \<^verbatim>\<open>process.exit(0)\<close> does not return: nothing after it runs, which the callers
  see by the exit code.
\<close>

fun run_agent_listeners ::
  "agent_listener list \<Rightarrow> nat \<Rightarrow> classification \<Rightarrow> arg list \<Rightarrow> wproc \<Rightarrow> wproc completion" where
  "run_agent_listeners [] this opts args p = Returned p"
| "run_agent_listeners (UserOn f Returns # ls) this opts args p =
     run_agent_listeners ls this opts args (p\<lparr>observed := observed p @ [Ran f opts args]\<rparr>)"
| "run_agent_listeners (UserOn f (Throws err) # ls) this opts args p =
     Thrown err (p\<lparr>observed := observed p @ [Ran f opts args]\<rparr>)"
| "run_agent_listeners (UserOnce f Returns # ls) this opts args p =
     run_agent_listeners ls this opts args
       (p\<lparr>instances := (instances p)[this := remove1 (UserOnce f Returns) (instances p ! this)],
          observed := observed p @ [Ran f opts args]\<rparr>)"
| "run_agent_listeners (UserOnce f (Throws err) # ls) this opts args p =
     Thrown err
       (p\<lparr>instances := (instances p)[this := remove1 (UserOnce f (Throws err)) (instances p ! this)],
          observed := observed p @ [Ran f opts args]\<rparr>)"
| "run_agent_listeners (ExitProcess # ls) this opts args p =
     Returned
       (p\<lparr>instances := (instances p)[this := remove1 ExitProcess (instances p ! this)],
          exit_code := Some 0,
          observed := observed p @ [ProcessExit 0]\<rparr>)"

definition emit_exit :: "nat \<Rightarrow> classification \<Rightarrow> arg list \<Rightarrow> wproc \<Rightarrow> wproc completion" where
  "emit_exit this opts args p = run_agent_listeners (instances p ! this) this opts args p"

text \<open>
  \<^verbatim>\<open>#onExit\<close>: the hook is registered first, then the event is emitted, with
  nothing around the \<^verbatim>\<open>emit\<close> that would take the hook off again.
\<close>

definition agent_onExit ::
  "nat \<Rightarrow> classification \<Rightarrow> bool \<Rightarrow> arg list \<Rightarrow> wproc \<Rightarrow> wproc completion" where
  "agent_onExit this opts exit args p =
     (let p1 = (if exit
                then p\<lparr>instances := (instances p)[this := instances p ! this @ [ExitProcess]]\<rparr>
                else p)
      in emit_exit this opts args p1)"

definition agent_onSystemMessage :: "nat \<Rightarrow> envelope \<Rightarrow> wproc \<Rightarrow> wproc completion" where
  "agent_onSystemMessage this msg p =
     (if m_call msg = Some EXIT then agent_onExit this Requested True [] p else Returned p)"

text \<open>
  The listeners of the message events are observers here: an error they throw reaches the
  agent like any other uncaught error of the application, as the event of the monitoring
  hook.
\<close>

definition agent_onMessage :: "nat \<Rightarrow> envelope \<Rightarrow> wproc \<Rightarrow> wproc completion" where
  "agent_onMessage this msg p =
     (case m_type msg of
        TypeNull \<Rightarrow> agent_onSystemMessage this msg p
      | TypeUndefined \<Rightarrow> Returned (p\<lparr>observed := observed p @ [EmittedMessage this msg]\<rparr>)
      | TypeNamed t \<Rightarrow>
          Returned (p\<lparr>observed := observed p @ [EmittedTyped this (''message-'' @ t) (m_message msg)]\<rparr>))"

subsection \<open>Delivery of process events\<close>

definition event_name :: "proc_event \<Rightarrow> string" where
  "event_name ev =
     (case ev of
        PMessage msg \<Rightarrow> ''message''
      | PSignal n k \<Rightarrow> n
      | PDisconnect \<Rightarrow> ''disconnect''
      | PUncaughtExceptionMonitor err origin \<Rightarrow> ''uncaughtExceptionMonitor'')"

definition event_args :: "proc_event \<Rightarrow> arg list" where
  "event_args ev =
     (case ev of
        PMessage msg \<Rightarrow> []
      | PSignal n k \<Rightarrow> [AStr n, ANum k]
      | PDisconnect \<Rightarrow> []
      | PUncaughtExceptionMonitor err origin \<Rightarrow> [AStr err, AStr origin])"

definition call_handler :: "proc_handler \<Rightarrow> proc_event \<Rightarrow> wproc \<Rightarrow> wproc completion" where
  "call_handler h ev p =
     (case h of
        HandleMessage this \<Rightarrow>
          (case ev of PMessage msg \<Rightarrow> agent_onMessage this msg p | _ \<Rightarrow> Returned p)
      | HandleExit this opts exit \<Rightarrow> agent_onExit this opts exit (event_args ev) p)"

text \<open>
  \<^verbatim>\<open>process.emit\<close>: the handlers registered under the event's name run in order
  while the process lives; an error thrown by one of them ends the round.
\<close>

fun call_handlers :: "proc_handler list \<Rightarrow> proc_event \<Rightarrow> wproc \<Rightarrow> wproc completion" where
  "call_handlers [] ev p = Returned p"
| "call_handlers (h # hs) ev p =
     (if exit_code p = None
      then (case call_handler h ev p of
              Returned p' \<Rightarrow> call_handlers hs ev p'
            | Thrown err p' \<Rightarrow> Thrown err p')
      else Returned p)"

definition process_emit :: "proc_event \<Rightarrow> wproc \<Rightarrow> wproc completion" where
  "process_emit ev p =
     call_handlers (map snd (filter (\<lambda>(n, h). n = event_name ev) (handlers p))) ev p"

text \<open>
  The event loop delivers an event. An error that escapes the handlers is uncaught: the
  platform shows it to the monitoring hook, with the origin \<^verbatim>\<open>uncaughtException\<close>,
  before anything else. The model follows the process to the end of that hook and leaves
  the state as the hook leaves it; whether the platform then ends the process with an exit
  code of its own or a handler of the application keeps it running lies outside
  \<^verbatim>\<open>worker.js\<close>. An error thrown while the monitoring hook runs is not shown to
  the hook again. The event \<open>PUncaughtExceptionMonitor\<close> is the same hook for an
  error thrown anywhere else in the application.
\<close>

definition deliver :: "proc_event \<Rightarrow> wproc \<Rightarrow> wproc" where
  "deliver ev p =
     (case process_emit ev p of
        Returned p' \<Rightarrow> p'
      | Thrown err p' \<Rightarrow>
          (case ev of
             PUncaughtExceptionMonitor e origin \<Rightarrow> p'
           | _ \<Rightarrow> state_after (process_emit (PUncaughtExceptionMonitor err ''uncaughtException'') p')))"

subsection \<open>What can happen in a worker process\<close>

datatype wcommand =
    Construct
  | AddOn nat nat behaviour
  | AddOnce nat nat behaviour
  | Deliver proc_event

text \<open>
  A construction that throws leaves the process as it was. The application can add
  listeners only to an instance that exists. A process that has exited does nothing more.
\<close>

definition wstep :: "wproc \<Rightarrow> wcommand \<Rightarrow> wproc" where
  "wstep p c =
     (if exit_code p \<noteq> None then p
      else (case c of
              Construct \<Rightarrow> (case new_Worker p of Inl e \<Rightarrow> p | Inr p' \<Rightarrow> p')
            | AddOn this f b \<Rightarrow>
                (if this < length (instances p)
                 then p\<lparr>instances := (instances p)[this := instances p ! this @ [UserOn f b]]\<rparr>
                 else p)
            | AddOnce this f b \<Rightarrow>
                (if this < length (instances p)
                 then p\<lparr>instances := (instances p)[this := instances p ! this @ [UserOnce f b]]\<rparr>
                 else p)
            | Deliver ev \<Rightarrow> deliver ev p))"

definition wrun :: "wproc \<Rightarrow> wcommand list \<Rightarrow> wproc" where
  "wrun p cs = foldl wstep p cs"

text \<open>The listeners of an instance that the application registered, as tokens in order.\<close>

definition user_tokens :: "agent_listener list \<Rightarrow> nat list" where
  "user_tokens ls =
     concat (map (\<lambda>l. case l of UserOn f b \<Rightarrow> [f] | UserOnce f b \<Rightarrow> [f] | ExitProcess \<Rightarrow> []) ls)"

section \<open>Example inputs\<close>

text \<open>
  A clock and a random source for concrete runs: spawn number \<open>k\<close> reads the clock
  \<open>k\<close> seconds after \<open>t\<close>, and every spawn draws the same eight bytes.
\<close>

definition example_bytes :: "nat \<Rightarrow> 8 word" where
  "example_bytes i = (if i < 4 then 7 else 171)"

definition example_oracle :: "int \<Rightarrow> spawn_oracle" where
  "example_oracle t k =
     \<lparr>id_clock = t + 1000 * int k, random_byte = example_bytes, birth_clock = t\<rparr>"

text \<open>An EXIT system call as the agent reads it, and a worker process with one agent and two listeners.\<close>

definition example_exit_call :: envelope where
  "example_exit_call =
     \<lparr>m_type = TypeNull, m_message = [], m_call = Some EXIT, m_system = None,
      m_count = 0, m_WORKER_ID = None\<rparr>"

definition example_commands :: "wcommand list" where
  "example_commands = [Construct, AddOn 0 7 Returns, AddOnce 0 8 Returns]"

text \<open>A worker process with one agent whose first listener, registered with \<^verbatim>\<open>once\<close>, throws.\<close>

definition example_throwing :: "wcommand list" where
  "example_throwing = [Construct, AddOnce 0 7 (Throws ''boom''), AddOn 0 8 Returns]"

text \<open>A Supervisor with the default restart policy that has started \<open>n\<close> workers.\<close>

definition example_clock :: int where
  "example_clock = 1700000000000"

definition example_pool :: "int \<Rightarrow> cluster" where
  "example_pool n = start (example_oracle example_clock) (new_cluster n Map.empty default_restart)"

text \<open>The same Supervisor with one worker after \<^verbatim>\<open>stop()\<close> has returned.\<close>

definition example_stopped :: cluster where
  "example_stopped = state_of (stop (example_pool 1))"

text \<open>The request \<^verbatim>\<open>SPIN_UP{count: 2}\<close> of a worker.\<close>

definition example_spin_up :: envelope where
  "example_spin_up =
     \<lparr>m_type = TypeNull, m_message = [], m_call = Some SPIN_UP, m_system = None,
      m_count = 2, m_WORKER_ID = None\<rparr>"

section \<open>Invariants\<close>

text \<open>
  The registry of a Supervisor: its keys are distinct, as those of an object are; every
  entry leads to a handle of the store that carries the key as its identity; every handle
  has exactly one \<^verbatim>\<open>exit\<close> listener, the default one or the one of
  \<^verbatim>\<open>#terminateWorker\<close> for its own identity; and every key has at least the 24
  characters of a generated identity.
\<close>

definition wf_cluster :: "cluster \<Rightarrow> bool" where
  "wf_cluster s \<longleftrightarrow>
     distinct (map fst (workers s))
     \<and> (\<forall>(k, b) \<in> set (workers s). b < length (heap s) \<and> WORKER_ID (heap s ! b) = k)
     \<and> (\<forall>b < length (heap s).
          exit_listeners (heap s ! b) = [DefaultOnExit]
          \<or> exit_listeners (heap s ! b) = [Terminated (WORKER_ID (heap s ! b))])
     \<and> (\<forall>k \<in> set (map fst (workers s)). 24 \<le> length k)"

text \<open>
  The exit handling of the spec in its own words, to compare \<^verbatim>\<open>#onExit\<close> with:
  step 1 sets the time of death, removes the record and emits \<^verbatim>\<open>death\<close>;
  step 2 decides on a replacement from the registry size, the kind of exit, the policy
  flag of that kind and the age.
\<close>

definition after_death :: "cluster \<Rightarrow> addr \<Rightarrow> int option \<Rightarrow> string option \<Rightarrow> int \<Rightarrow> cluster" where
  "after_death s a code signal now =
     emit (Death a code signal)
       (s\<lparr>heap := (heap s)[a := (heap s ! a)\<lparr>DEATH_TIME := Some now\<rparr>],
          workers := AList.delete (WORKER_ID (heap s ! a)) (workers s)\<rparr>)"

definition restart_policy :: "cluster \<Rightarrow> addr \<Rightarrow> int option \<Rightarrow> string option \<Rightarrow> int \<Rightarrow> bool" where
  "restart_policy s a code signal now \<longleftrightarrow>
     int (length (AList.delete (WORKER_ID (heap s ! a)) (workers s))) < target_workers s
     \<and> now - BIRTH_TIME (heap s ! a) \<ge> min_restart_age s
     \<and> (if truthy signal then restart_on_signal s
         else if code \<noteq> Some 0 then restart_on_error s
         else restart_on_normal_exit s)"

text \<open>The handle \<open>a\<close> exists and no entry of the registry leads to it.\<close>

definition gone :: "addr \<Rightarrow> cluster \<Rightarrow> bool" where
  "gone a s \<longleftrightarrow> a < length (heap s) \<and> a \<notin> snd ` set (workers s)"

text \<open>What \<^verbatim>\<open>#terminateWorker\<close> called with the key \<open>k\<close> does to the handle it finds.\<close>

definition terminated_handle :: "string \<Rightarrow> worker \<Rightarrow> worker" where
  "terminated_handle k w = w\<lparr>sent := sent w @ [exit_envelope k], exit_listeners := [Terminated k]\<rparr>"

text \<open>A sequence of exit notifications, each with its worker, code, signal and clock.\<close>

type_synonym exit_note = "addr \<times> int option \<times> string option \<times> int"

definition exits :: "spawn_oracle \<Rightarrow> exit_note list \<Rightarrow> cluster \<Rightarrow> cluster" where
  "exits ora es s = fold (\<lambda>(a, code, signal, now) s. worker_exit ora s a code signal now) es s"

text \<open>The identities of the next \<open>n\<close> spawns are new to the registry and differ from each other.\<close>

definition fresh_ids :: "spawn_oracle \<Rightarrow> cluster \<Rightarrow> nat \<Rightarrow> bool" where
  "fresh_ids ora s n \<longleftrightarrow>
     distinct (map (\<lambda>i. gen_WORKER_ID (ora (length (heap s) + i))) [0..<n])
     \<and> (\<forall>i < n. gen_WORKER_ID (ora (length (heap s) + i)) \<notin> set (keys s))"

text \<open>What an operation adds to \<open>target_workers\<close>.\<close>

definition target_delta :: "operation \<Rightarrow> int" where
  "target_delta c =
     (case c of
        SpinUp x \<Rightarrow> x
      | SpinDown x force \<Rightarrow> - x
      | WorkerMessage a msg \<Rightarrow>
          (if m_type msg = TypeNull \<and> m_call msg = Some SPIN_UP then m_count msg
           else if m_type msg = TypeNull \<and> m_call msg = Some SPIN_DOWN then - m_count msg
           else 0)
      | _ \<Rightarrow> 0)"

text \<open>What no handler of the agent changes: the static flag, the number of instances, the registrations on the process.\<close>

definition same_frame :: "wproc \<Rightarrow> wproc \<Rightarrow> bool" where
  "same_frame p q \<longleftrightarrow> has_been_created q = has_been_created p
     \<and> length (instances q) = length (instances p) \<and> handlers q = handlers p"

text \<open>
  The state of a worker process after the commands \<open>cs\<close>: the flag is set exactly
  when a construction was attempted, there is one instance then, with the registrations
  of its constructor, and none before, and before it nothing is registered and the
  process cannot have exited.
\<close>

definition single_inv :: "wcommand list \<Rightarrow> wproc \<Rightarrow> bool" where
  "single_inv cs p \<longleftrightarrow> (has_been_created p \<longleftrightarrow> Construct \<in> set cs)
     \<and> length (instances p) = (if has_been_created p then 1 else 0)
     \<and> (\<not> has_been_created p \<longrightarrow> exit_code p = None \<and> handlers p = [])
     \<and> (has_been_created p \<longrightarrow> handlers p = agent_handlers 0)"

text \<open>A listener of the application that returns, and a command that registers one that throws.\<close>

fun returning :: "agent_listener \<Rightarrow> bool" where
  "returning (UserOn f Returns) = True"
| "returning (UserOnce f Returns) = True"
| "returning l = False"

fun adds_throwing :: "wcommand \<Rightarrow> bool" where
  "adds_throwing (AddOn this f (Throws err)) = True"
| "adds_throwing (AddOnce this f (Throws err)) = True"
| "adds_throwing c = False"

definition all_returning :: "agent_listener list list \<Rightarrow> bool" where
  "all_returning xs \<longleftrightarrow> (\<forall>ls \<in> set xs. \<forall>l \<in> set ls. returning l)"

text \<open>
  While the process lives, every listener is one of the application that returns: no
  instance holds the one-time hook.
\<close>

definition alive_inv :: "wproc \<Rightarrow> bool" where
  "alive_inv p \<longleftrightarrow> (exit_code p = None \<longrightarrow> all_returning (instances p))"

section \<open>Verified properties\<close>

subsection \<open>Hexadecimal formatting\<close>

lemma length_to_hex: "0 < k \<Longrightarrow> n < 16 ^ k \<Longrightarrow> length (to_hex n) \<le> k"
proof (induction n arbitrary: k rule: to_hex.induct)
  case (1 n)
  show ?case
  proof (cases "n < 16")
    case True
    with "1.prems" show ?thesis by (simp add: to_hex.simps [of n])
  next
    case False
    from "1.prems" obtain j where kj: "k = Suc j" by (cases k) auto
    have "0 < j"
    proof (rule ccontr)
      assume "\<not> 0 < j"
      with kj "1.prems" have "n < 16" by simp
      with False show False by simp
    qed
    with kj have j: "k = Suc j" "0 < j" by simp_all
    from "1.prems" j have "n div 16 < 16 ^ j"
      by (simp add: less_mult_imp_div_less mult.commute)
    with "1.IH" [OF False, of j] j have "length (to_hex (n div 16)) \<le> j" by simp
    with False j show ?thesis by (simp add: to_hex.simps [of n])
  qed
qed

lemma hex_digit_table:
  "\<forall>m \<in> set [0..<16]. is_lower_hex (hex_digit m) \<and> hex_value (hex_digit m) = m"
  by code_simp

lemma hex_digit_lower: "is_lower_hex (hex_digit d)"
proof -
  have "d mod 16 \<in> set [0..<16]" by simp
  with hex_digit_table have "is_lower_hex (hex_digit (d mod 16))" by blast
  then show ?thesis by (simp add: hex_digit_def)
qed

lemma hex_value_digit: "hex_value (hex_digit d) = d mod 16"
proof -
  have "d mod 16 \<in> set [0..<16]" by simp
  with hex_digit_table have "hex_value (hex_digit (d mod 16)) = d mod 16" by blast
  then show ?thesis by (simp add: hex_digit_def)
qed

lemma to_hex_lower: "\<forall>c \<in> set (to_hex n). is_lower_hex c"
  by (induction n rule: to_hex.induct) (subst to_hex.simps, auto simp: hex_digit_lower)

lemma of_hex_snoc: "of_hex (s @ [c]) = 16 * of_hex s + hex_value c"
  by (simp add: of_hex_def)

lemma of_hex_to_hex: "of_hex (to_hex n) = n"
proof (induction n rule: to_hex.induct)
  case (1 n)
  show ?case
  proof (cases "n < 16")
    case True
    then show ?thesis by (simp add: to_hex.simps [of n] of_hex_def hex_value_digit)
  next
    case False
    with 1 show ?thesis
      by (simp add: to_hex.simps [of n] of_hex_snoc hex_value_digit)
  qed
qed

lemma of_hex_zeros: "of_hex (replicate k (CHR ''0'') @ s) = of_hex s"
proof -
  have "foldl (\<lambda>acc c. 16 * acc + hex_value c) 0 (replicate k (CHR ''0'')) = 0"
    by (induction k) (simp_all add: hex_value_def)
  then show ?thesis by (simp add: of_hex_def)
qed

lemma of_hex_padStart: "of_hex (padStart k (CHR ''0'') (to_hex n)) = n"
  by (simp add: padStart_def of_hex_zeros of_hex_to_hex)

lemma length_padStart: "length s \<le> n \<Longrightarrow> length (padStart n c s) = n"
  by (simp add: padStart_def)

lemma padStart_lower: "is_lower_hex c \<Longrightarrow> \<forall>x \<in> set s. is_lower_hex x \<Longrightarrow> \<forall>x \<in> set (padStart n c s). is_lower_hex x"
  by (auto simp: padStart_def)

lemma gen_WORKER_ID_concat:
  "gen_WORKER_ID e = padStart 8 (CHR ''0'') (toString16 (id_clock e div 1000))
      @ concat (map (\<lambda>i. byte_hex (random_byte e i)) [0..<8])"
proof -
  have "foldl (\<lambda>wid i. wid @ f i) a xs = a @ concat (map f xs)" for f :: "nat \<Rightarrow> string" and a xs
    by (induction xs arbitrary: a) simp_all
  then show ?thesis by (simp add: gen_WORKER_ID_def)
qed

lemma length_byte_hex: "length (byte_hex b) = 2"
proof -
  have "unat b < 16 ^ 2" using unsigned_less [of b, where ?'a = nat] by simp
  then have "length (to_hex (unat b)) \<le> 2" by (intro length_to_hex) simp_all
  then show ?thesis by (simp add: byte_hex_def toString16_def length_padStart)
qed


lemma zero_lower: "is_lower_hex (CHR ''0'')"
  by (simp add: is_lower_hex_def)

lemma byte_hex_lower: "\<forall>c \<in> set (byte_hex b). is_lower_hex c"
  unfolding byte_hex_def toString16_def
  by (intro padStart_lower) (simp_all add: to_hex_lower zero_lower)

lemma of_hex_byte_hex: "of_hex (byte_hex b) = unat b"
  by (simp add: byte_hex_def toString16_def of_hex_padStart)

lemma block_of_concat:
  "\<forall>x \<in> set xs. length (f x) = k \<Longrightarrow> i < length xs \<Longrightarrow>
     take k (drop (k * i) (concat (map f xs))) = f (xs ! i)"
proof (induction xs arbitrary: i)
  case Nil
  then show ?case by simp
next
  case (Cons x xs)
  show ?case
  proof (cases i)
    case 0
    with Cons.prems show ?thesis by simp
  next
    case (Suc j)
    with Cons.prems have "take k (drop (k * j) (concat (map f xs))) = f (xs ! j)"
      by (intro Cons.IH) simp_all
    with Suc Cons.prems show ?thesis by (simp add: add.commute)
  qed
qed

lemma length_blocks:
  "\<forall>x \<in> set xs. length (f x) = k \<Longrightarrow> length (concat (map f xs)) = k * length xs"
  by (induction xs) simp_all

lemma clock_hex_length:
  assumes "0 \<le> t" "t < 2 ^ 32 * 1000"
  shows "length (padStart 8 (CHR ''0'') (toString16 (t div 1000))) = 8"
proof -
  from assms have "0 \<le> t div 1000" "t div 1000 < 2 ^ 32" by simp_all
  then have "nat (t div 1000) < 16 ^ 8" by simp
  then have "length (to_hex (nat (t div 1000))) \<le> 8" by (intro length_to_hex) simp_all
  with \<open>0 \<le> t div 1000\<close> show ?thesis by (simp add: toString16_def length_padStart)
qed

lemma clock_hex_lower:
  assumes "0 \<le> t"
  shows "\<forall>c \<in> set (padStart 8 (CHR ''0'') (toString16 (t div 1000))). is_lower_hex c"
proof -
  from assms have "0 \<le> t div 1000" by simp
  then have "toString16 (t div 1000) = to_hex (nat (t div 1000))" by (simp add: toString16_def)
  moreover have "\<forall>c \<in> set (padStart 8 (CHR ''0'') (to_hex (nat (t div 1000)))). is_lower_hex c"
    by (intro padStart_lower zero_lower to_hex_lower)
  ultimately show ?thesis by simp
qed

lemma gen_WORKER_ID_format:
  assumes "0 \<le> id_clock e" "id_clock e < 2 ^ 32 * 1000"
  shows "length (gen_WORKER_ID e) = 24"
    and "\<forall>c \<in> set (gen_WORKER_ID e). is_lower_hex c"
    and "take 8 (gen_WORKER_ID e) = padStart 8 (CHR ''0'') (to_hex (nat (id_clock e div 1000)))"
    and "of_hex (take 8 (gen_WORKER_ID e)) = nat (id_clock e div 1000)"
    and "drop 8 (gen_WORKER_ID e) = concat (map (\<lambda>i. byte_hex (random_byte e i)) [0..<8])"
    and "\<forall>i < 8. of_hex (take 2 (drop (8 + 2 * i) (gen_WORKER_ID e))) = unat (random_byte e i)"
proof -
  let ?h = "padStart 8 (CHR ''0'') (toString16 (id_clock e div 1000))"
  let ?f = "\<lambda>i. byte_hex (random_byte e i)"
  let ?r = "concat (map ?f [0..<8])"
  have g: "gen_WORKER_ID e = ?h @ ?r" by (rule gen_WORKER_ID_concat)
  have lh: "length ?h = 8" using assms by (rule clock_hex_length)
  have blocks: "\<forall>x \<in> set [0..<8]. length (?f x) = 2" by (simp add: length_byte_hex)
  have lr: "length ?r = 2 * length [0..<8]" using blocks by (rule length_blocks)
  from assms have nn: "0 \<le> id_clock e div 1000" by simp
  then have h_eq: "?h = padStart 8 (CHR ''0'') (to_hex (nat (id_clock e div 1000)))"
    by (simp add: toString16_def)
  show "length (gen_WORKER_ID e) = 24" using g lh lr by simp
  show "\<forall>c \<in> set (gen_WORKER_ID e). is_lower_hex c"
    using clock_hex_lower [OF assms(1)] byte_hex_lower by (auto simp: g)
  show t8: "take 8 (gen_WORKER_ID e) = padStart 8 (CHR ''0'') (to_hex (nat (id_clock e div 1000)))"
    using lh h_eq by (simp add: g)
  show "of_hex (take 8 (gen_WORKER_ID e)) = nat (id_clock e div 1000)"
    by (simp only: t8 of_hex_padStart)
  show "drop 8 (gen_WORKER_ID e) = ?r" using lh by (simp add: g)
  show "\<forall>i < 8. of_hex (take 2 (drop (8 + 2 * i) (gen_WORKER_ID e))) = unat (random_byte e i)"
  proof (intro allI impI)
    fix i :: nat
    assume i: "i < 8"
    have "drop (8 + 2 * i) (gen_WORKER_ID e) = drop (2 * i) ?r"
      using lh by (simp add: g)
    moreover have "take 2 (drop (2 * i) ?r) = ?f ([0..<8] ! i)"
      using blocks i by (intro block_of_concat) simp_all
    ultimately show "of_hex (take 2 (drop (8 + 2 * i) (gen_WORKER_ID e))) = unat (random_byte e i)"
      using i by (simp add: of_hex_byte_hex)
  qed
qed

subsection \<open>Worker identities\<close>

lemma spawnWorker_fst: "fst (spawnWorker ora s) = gen_WORKER_ID (ora (length (heap s)))"
  by (simp add: spawnWorker_def Let_def)

lemma spawnWorker_heap:
  "heap (snd (spawnWorker ora s)) = heap s @
     [\<lparr>WORKER_ID = gen_WORKER_ID (ora (length (heap s))),
       BIRTH_TIME = birth_clock (ora (length (heap s))), DEATH_TIME = None,
       fork_env = [''WORKER_ID'' \<mapsto> gen_WORKER_ID (ora (length (heap s)))] ++ env s,
       exit_listeners = [DefaultOnExit], sent = []\<rparr>]"
  by (simp add: spawnWorker_def Let_def)

lemma spawnWorker_workers:
  "workers (snd (spawnWorker ora s)) =
     AList.update (gen_WORKER_ID (ora (length (heap s)))) (length (heap s)) (workers s)"
  by (simp add: spawnWorker_def Let_def)

text \<open>
  C8, as the code has it. The clock is \<^verbatim>\<open>getTime()\<close> in milliseconds. While the
  Unix time in seconds is non-negative and fits eight hexadecimal digits (below
  \<open>2 ^ 32\<close>), and the configured environment has no key \<^verbatim>\<open>WORKER_ID\<close> of its
  own, the identity that \<^verbatim>\<open>#spawnWorker\<close> generates has exactly 24 characters, all
  lowercase hexadecimal; its first eight read back as the clock in whole seconds, each
  following pair as one random byte; the new handle carries it, the registry files the
  handle under it, and the environment handed to the fork has it under
  \<^verbatim>\<open>WORKER_ID\<close>.
\<close>

theorem spawnWorker_identity:
  assumes "0 \<le> id_clock (ora (length (heap s)))"
    and "id_clock (ora (length (heap s))) < 2 ^ 32 * 1000"
    and "''WORKER_ID'' \<notin> dom (env s)"
    and "spawnWorker ora s = (wid, s')"
  shows "length wid = 24
    \<and> (\<forall>c \<in> set wid. is_lower_hex c)
    \<and> of_hex (take 8 wid) = nat (id_clock (ora (length (heap s))) div 1000)
    \<and> (\<forall>i < 8. of_hex (take 2 (drop (8 + 2 * i) wid)) = unat (random_byte (ora (length (heap s))) i))
    \<and> WORKER_ID (heap s' ! length (heap s)) = wid
    \<and> map_of (workers s') wid = Some (length (heap s))
    \<and> fork_env (heap s' ! length (heap s)) ''WORKER_ID'' = Some wid"
proof -
  let ?e = "ora (length (heap s))"
  from assms(4) have wid: "wid = gen_WORKER_ID ?e"
    using spawnWorker_fst [of ora s] by simp
  from assms(4) have s': "s' = snd (spawnWorker ora s)" by simp
  note fmt = gen_WORKER_ID_format [OF assms(1) assms(2)]
  have "WORKER_ID (heap s' ! length (heap s)) = wid"
    by (simp add: s' wid spawnWorker_heap)
  moreover have "map_of (workers s') wid = Some (length (heap s))"
    by (simp add: s' wid spawnWorker_workers update_conv')
  moreover from assms(3) have "fork_env (heap s' ! length (heap s)) ''WORKER_ID'' = Some wid"
    by (simp add: s' wid spawnWorker_heap map_add_def domIff split: option.splits)
  ultimately show ?thesis using fmt by (simp add: wid)
qed

lemma upt8: "[0..<8] = [0, 1, 2, 3, 4, 5, 6, Suc 6]"
  by (simp add: eval_nat_numeral)

lemmas hex_eval = gen_WORKER_ID_def example_oracle_def example_bytes_def byte_hex_def
  toString16_def padStart_def to_hex.simps hex_digit_def upt8

lemma example_identity:
  "gen_WORKER_ID (example_oracle 1700000000000 0) = ''6553f10007070707abababab''"
  by (simp add: hex_eval)

theorem spawnWorker_identity_witness:
  "fst (spawnWorker (example_oracle 1700000000000) (new_cluster 1 Map.empty default_restart))
     = ''6553f10007070707abababab''
   \<and> length ''6553f10007070707abababab'' = 24
   \<and> of_hex (take 8 ''6553f10007070707abababab'') = nat (1700000000000 div 1000)
   \<and> fork_env (heap (snd (spawnWorker (example_oracle 1700000000000)
         (new_cluster 1 Map.empty default_restart))) ! 0) ''WORKER_ID''
       = Some ''6553f10007070707abababab''"
proof -
  let ?ora = "example_oracle 1700000000000"
  let ?s = "new_cluster 1 Map.empty default_restart"
  have h: "heap ?s = []" "env ?s = Map.empty" by (simp_all add: new_cluster_def)
  have l: "length (heap ?s) = 0" by (simp add: new_cluster_def)
  have c: "id_clock (?ora (length (heap ?s))) = 1700000000000"
    by (simp add: example_oracle_def h)
  have h1: "0 \<le> id_clock (?ora (length (heap ?s)))" by (simp add: c)
  have h2: "id_clock (?ora (length (heap ?s))) < 2 ^ 32 * 1000" by (simp add: c)
  have h3: "''WORKER_ID'' \<notin> dom (env ?s)" by (simp add: h)
  have w: "fst (spawnWorker ?ora ?s) = ''6553f10007070707abababab''"
    by (simp add: spawnWorker_fst h example_identity)
  then have h4: "spawnWorker ?ora ?s = (''6553f10007070707abababab'', snd (spawnWorker ?ora ?s))"
    by (simp add: prod_eq_iff)
  note r = spawnWorker_identity [OF h1 h2 h3 h4]
  from r have a: "length ''6553f10007070707abababab'' = 24" by (rule conjunct1)
  from r have "of_hex (take 8 ''6553f10007070707abababab'')
      = nat (id_clock (?ora (length (heap ?s))) div 1000)" by blast
  then have b: "of_hex (take 8 ''6553f10007070707abababab'') = nat (1700000000000 div 1000)"
    by (simp only: c)
  from r have "fork_env (heap (snd (spawnWorker ?ora ?s)) ! length (heap ?s)) ''WORKER_ID''
      = Some ''6553f10007070707abababab''" by blast
  then have d: "fork_env (heap (snd (spawnWorker ?ora ?s)) ! 0) ''WORKER_ID''
      = Some ''6553f10007070707abababab''" by (simp only: l)
  show ?thesis by (rule conjI [OF w conjI [OF a conjI [OF b d]]])
qed

text \<open>
  The claim as written fails twice. \<^verbatim>\<open>padStart\<close> does not truncate: from
  \<open>2 ^ 32\<close> seconds on (the year 2106) the clock takes nine digits and the identity
  25 characters. And the fork's environment is \<^verbatim>\<open>{WORKER_ID, ...this.#env}\<close>, so a
  configured \<^verbatim>\<open>WORKER_ID\<close> replaces the generated one.
\<close>

theorem spawnWorker_identity_counterexample:
  "length (fst (spawnWorker (example_oracle 4294967296000)
       (new_cluster 1 Map.empty default_restart))) = 25
   \<and> fst (spawnWorker (example_oracle 1700000000000)
       (new_cluster 1 [''WORKER_ID'' \<mapsto> ''mine''] default_restart)) = ''6553f10007070707abababab''
   \<and> fork_env (heap (snd (spawnWorker (example_oracle 1700000000000)
       (new_cluster 1 [''WORKER_ID'' \<mapsto> ''mine''] default_restart))) ! 0) ''WORKER_ID''
     = Some ''mine''"
proof -
  let ?s = "new_cluster 1 [''WORKER_ID'' \<mapsto> ''mine''] default_restart"
  have "gen_WORKER_ID (example_oracle 4294967296000 0) = ''10000000007070707abababab''"
    by (simp add: hex_eval)
  then have "length (gen_WORKER_ID (example_oracle 4294967296000 0)) = 25"
    by simp
  then have a: "length (fst (spawnWorker (example_oracle 4294967296000)
       (new_cluster 1 Map.empty default_restart))) = 25"
    by (simp add: spawnWorker_fst new_cluster_def)
  have h: "heap ?s = []" "env ?s = [''WORKER_ID'' \<mapsto> ''mine'']"
    by (simp_all add: new_cluster_def)
  have b: "fst (spawnWorker (example_oracle 1700000000000) ?s) = ''6553f10007070707abababab''"
    by (simp add: spawnWorker_fst h example_identity)
  have "fork_env (heap (snd (spawnWorker (example_oracle 1700000000000) ?s)) ! 0) ''WORKER_ID''
      = ([''WORKER_ID'' \<mapsto> gen_WORKER_ID (example_oracle 1700000000000 0)]
           ++ [''WORKER_ID'' \<mapsto> ''mine'']) ''WORKER_ID''"
    by (simp add: spawnWorker_heap h)
  then have c: "fork_env (heap (snd (spawnWorker (example_oracle 1700000000000) ?s)) ! 0)
      ''WORKER_ID'' = Some ''mine''"
    by simp
  show ?thesis by (rule conjI [OF a conjI [OF b c]])
qed

subsection \<open>The registry invariant\<close>

lemma wf_cluster_cong:
  "workers s' = workers s \<Longrightarrow> heap s' = heap s \<Longrightarrow> wf_cluster s' = wf_cluster s"
  by (simp add: wf_cluster_def)

lemma wf_new_cluster: "wf_cluster (new_cluster n e r)"
  by (simp add: wf_cluster_def new_cluster_def)

lemma wf_emit: "wf_cluster (emit ev s) = wf_cluster s"
  by (rule wf_cluster_cong) (simp_all add: emit_def)

lemma set_delete_subset: "set (AList.delete k al) \<subseteq> set al"
  by (auto simp: AList.delete_eq)

lemma wf_delete:
  assumes "wf_cluster s"
  shows "wf_cluster (s\<lparr>workers := AList.delete k (workers s)\<rparr>)"
proof -
  have sub: "set (AList.delete k (workers s)) \<subseteq> set (workers s)" by (rule set_delete_subset)
  then have "set (map fst (AList.delete k (workers s))) \<subseteq> set (map fst (workers s))" by auto
  with assms sub show ?thesis
    by (auto simp: wf_cluster_def distinct_delete)
qed

lemma length_gen_WORKER_ID: "24 \<le> length (gen_WORKER_ID e)"
proof -
  have "8 \<le> length (padStart 8 (CHR ''0'') (toString16 (id_clock e div 1000)))"
    by (simp add: padStart_def)
  moreover have "length (concat (map (\<lambda>i. byte_hex (random_byte e i)) [0..<8])) = 2 * length [0..<8]"
    by (rule length_blocks) (simp add: length_byte_hex)
  ultimately show ?thesis by (simp add: gen_WORKER_ID_concat)
qed

lemma set_update_subset: "set (AList.update k v al) \<subseteq> insert (k, v) (set al)"
  by (induction al) auto

lemma wf_spawnWorker:
  assumes "wf_cluster s"
  shows "wf_cluster (snd (spawnWorker ora s))"
proof -
  let ?wid = "gen_WORKER_ID (ora (length (heap s)))"
  let ?s' = "snd (spawnWorker ora s)"
  have w: "workers ?s' = AList.update ?wid (length (heap s)) (workers s)"
    by (rule spawnWorker_workers)
  have h: "heap ?s' = heap s @ [\<lparr>WORKER_ID = ?wid,
       BIRTH_TIME = birth_clock (ora (length (heap s))), DEATH_TIME = None,
       fork_env = [''WORKER_ID'' \<mapsto> ?wid] ++ env s,
       exit_listeners = [DefaultOnExit], sent = []\<rparr>]"
    by (rule spawnWorker_heap)
  from assms have d: "distinct (map fst (workers ?s'))"
    by (simp add: w wf_cluster_def distinct_update)
  have e: "\<forall>(k, b) \<in> set (workers ?s'). b < length (heap ?s') \<and> WORKER_ID (heap ?s' ! b) = k"
  proof (intro ballI, clarify)
    fix k b
    assume "(k, b) \<in> set (workers ?s')"
    with set_update_subset [of ?wid "length (heap s)" "workers s"]
    have "(k, b) = (?wid, length (heap s)) \<or> (k, b) \<in> set (workers s)" by (auto simp: w)
    then show "b < length (heap ?s') \<and> WORKER_ID (heap ?s' ! b) = k"
    proof
      assume "(k, b) = (?wid, length (heap s))"
      then show ?thesis by (simp add: h)
    next
      assume "(k, b) \<in> set (workers s)"
      with assms have "b < length (heap s)" "WORKER_ID (heap s ! b) = k"
        by (auto simp: wf_cluster_def)
      then show ?thesis by (simp add: h nth_append)
    qed
  qed
  from assms have l: "\<forall>b < length (heap ?s').
          exit_listeners (heap ?s' ! b) = [DefaultOnExit]
          \<or> exit_listeners (heap ?s' ! b) = [Terminated (WORKER_ID (heap ?s' ! b))]"
    by (auto simp: h nth_append wf_cluster_def less_Suc_eq)
  from assms have k: "\<forall>k \<in> set (map fst (workers ?s')). 24 \<le> length k"
    using length_gen_WORKER_ID [of "ora (length (heap s))"]
    by (auto simp: w wf_cluster_def dom_update)
  from d e l k show ?thesis unfolding wf_cluster_def by blast
qed

lemma wf_spawn_times: "wf_cluster s \<Longrightarrow> wf_cluster (spawn_times ora n s)"
  by (induction n arbitrary: s) (simp_all add: wf_spawnWorker)

lemma wf_heap_update:
  assumes "wf_cluster s"
    and "a < length (heap s) \<Longrightarrow> WORKER_ID w = WORKER_ID (heap s ! a)"
    and "a < length (heap s) \<Longrightarrow>
      exit_listeners w = [DefaultOnExit] \<or> exit_listeners w = [Terminated (WORKER_ID w)]"
  shows "wf_cluster (s\<lparr>heap := (heap s)[a := w]\<rparr>)"
proof -
  have id: "WORKER_ID ((heap s)[a := w] ! b) = WORKER_ID (heap s ! b)" if "b < length (heap s)" for b
    using that assms(2) by (cases "b = a") simp_all
  have ls: "exit_listeners ((heap s)[a := w] ! b) = [DefaultOnExit]
      \<or> exit_listeners ((heap s)[a := w] ! b) = [Terminated (WORKER_ID ((heap s)[a := w] ! b))]"
    if "b < length (heap s)" for b
  proof (cases "b = a")
    case True
    with that assms(3) show ?thesis by simp
  next
    case False
    with that assms(1) show ?thesis by (simp add: wf_cluster_def)
  qed
  from assms(1) have "\<forall>(k, b) \<in> set (workers s).
      b < length (heap s) \<and> WORKER_ID ((heap s)[a := w] ! b) = k"
    by (auto simp: wf_cluster_def id)
  with assms(1) ls show ?thesis by (simp add: wf_cluster_def)
qed

lemma state_of_simps [simp]: "state_of (Inr s) = s" "state_of (Inl (e, s)) = s"
  by (simp_all add: state_of_def)

lemma terminateWorker_missing:
  "map_of (workers s) k = None \<Longrightarrow> terminateWorker s k = Inl (TypeError, s)"
  by (simp add: terminateWorker_def)

lemma terminateWorker_present:
  "map_of (workers s) k = Some a \<Longrightarrow>
     terminateWorker s k =
       Inr (s\<lparr>heap := (heap s)[a := (heap s ! a)\<lparr>sent := sent (heap s ! a) @ [exit_envelope k],
              exit_listeners := [Terminated k]\<rparr>]\<rparr>)"
  by (simp add: terminateWorker_def Let_def)

lemma terminateWorker_frame:
  "workers (state_of (terminateWorker s k)) = workers s
   \<and> target_workers (state_of (terminateWorker s k)) = target_workers s
   \<and> emitted (state_of (terminateWorker s k)) = emitted s
   \<and> length (heap (state_of (terminateWorker s k))) = length (heap s)"
  by (cases "map_of (workers s) k") (simp_all add: terminateWorker_missing terminateWorker_present)

lemma wf_terminateWorker:
  assumes "wf_cluster s"
  shows "wf_cluster (state_of (terminateWorker s k))"
proof (cases "map_of (workers s) k")
  case None
  with assms show ?thesis by (simp add: terminateWorker_missing)
next
  case (Some a)
  then have "(k, a) \<in> set (workers s)" by (rule map_of_SomeD)
  with assms have k: "WORKER_ID (heap s ! a) = k" by (auto simp: wf_cluster_def)
  have "wf_cluster (s\<lparr>heap := (heap s)[a := (heap s ! a)\<lparr>sent := sent (heap s ! a) @ [exit_envelope k],
              exit_listeners := [Terminated k]\<rparr>]\<rparr>)"
    using assms by (rule wf_heap_update) (simp_all add: k)
  with Some show ?thesis by (simp add: terminateWorker_present)
qed

lemma terminate_each_frame:
  "workers (state_of (terminate_each ks s)) = workers s
   \<and> target_workers (state_of (terminate_each ks s)) = target_workers s
   \<and> emitted (state_of (terminate_each ks s)) = emitted s
   \<and> length (heap (state_of (terminate_each ks s))) = length (heap s)"
proof (induction ks arbitrary: s)
  case Nil
  show ?case by simp
next
  case (Cons k ks)
  show ?case
  proof (cases "terminateWorker s k")
    case (Inl e)
    with terminateWorker_frame [of s k] show ?thesis by simp
  next
    case (Inr s')
    with terminateWorker_frame [of s k] Cons.IH [of s'] show ?thesis by simp
  qed
qed

lemma wf_terminate_each:
  "wf_cluster s \<Longrightarrow> wf_cluster (state_of (terminate_each ks s))"
proof (induction ks arbitrary: s)
  case Nil
  then show ?case by simp
next
  case (Cons k ks)
  show ?case
  proof (cases "terminateWorker s k")
    case (Inl e)
    with wf_terminateWorker [OF Cons.prems, of k] show ?thesis by simp
  next
    case (Inr s')
    with wf_terminateWorker [OF Cons.prems, of k] Cons.IH [of s'] show ?thesis by simp
  qed
qed

lemma wf_spinDown: "wf_cluster s \<Longrightarrow> wf_cluster (state_of (spinDown s x force))"
proof -
  assume "wf_cluster s"
  then have "wf_cluster (s\<lparr>target_workers := target_workers s - x\<rparr>)"
    by (simp add: wf_cluster_def)
  then show ?thesis by (simp add: spinDown_def Let_def wf_terminate_each)
qed

lemma wf_stop: "wf_cluster s \<Longrightarrow> wf_cluster (state_of (stop s))"
  by (simp add: stop_def wf_terminate_each)

lemma wf_spinUp: "wf_cluster s \<Longrightarrow> wf_cluster (spinUp ora s x)"
  unfolding spinUp_def by (rule wf_spawn_times) (simp add: wf_cluster_def)

lemma wf_start: "wf_cluster s \<Longrightarrow> wf_cluster (start ora s)"
  by (simp add: start_def wf_spawn_times)

lemma wf_refreshWorkers: "wf_cluster s \<Longrightarrow> wf_cluster (refreshWorkers ora s)"
  by (simp add: refreshWorkers_def Let_def wf_spawn_times)

subsection \<open>Exit handling, step by step\<close>

lemma died_same_identity:
  "WORKER_ID ((heap s)[a := (heap s ! a)\<lparr>DEATH_TIME := Some now\<rparr>] ! a) = WORKER_ID (heap s ! a)"
  by (cases "a < length (heap s)") (simp_all add: list_update_beyond)

lemma died_same_birth:
  "BIRTH_TIME ((heap s)[a := (heap s ! a)\<lparr>DEATH_TIME := Some now\<rparr>] ! a) = BIRTH_TIME (heap s ! a)"
  by (cases "a < length (heap s)") (simp_all add: list_update_beyond)

lemma onExit_steps:
  "onExit ora s a code signal now =
     (if restart_policy s a code signal now
      then respawn ora (after_death s a code signal now) a code signal
      else after_death s a code signal now)"
  by (simp add: onExit_def Let_def after_death_def restart_policy_def emit_def keys_def
      died_same_identity died_same_birth)

lemma wf_after_death:
  assumes "wf_cluster s"
  shows "wf_cluster (after_death s a code signal now)"
proof -
  let ?s1 = "s\<lparr>heap := (heap s)[a := (heap s ! a)\<lparr>DEATH_TIME := Some now\<rparr>]\<rparr>"
  have "wf_cluster ?s1"
    using assms by (rule wf_heap_update) (use assms in \<open>simp_all add: wf_cluster_def\<close>)
  then have "wf_cluster (?s1\<lparr>workers := AList.delete (WORKER_ID (heap s ! a)) (workers ?s1)\<rparr>)"
    by (rule wf_delete)
  then show ?thesis by (simp add: after_death_def wf_emit)
qed

lemma wf_respawn: "wf_cluster s \<Longrightarrow> wf_cluster (respawn ora s a code signal)"
  using wf_spawnWorker [of s ora]
  by (simp add: respawn_def split_beta wf_emit)

lemma wf_onExit: "wf_cluster s \<Longrightarrow> wf_cluster (onExit ora s a code signal now)"
  by (simp add: onExit_steps wf_after_death wf_respawn)

lemma wf_onTerminated: "wf_cluster s \<Longrightarrow> wf_cluster (onTerminated s a k code signal)"
proof -
  assume wf: "wf_cluster s"
  let ?s1 = "if truthy signal \<or> code \<noteq> Some 0 then emit (Death a code signal) s else s"
  from wf have "wf_cluster ?s1" by (simp add: wf_emit)
  then have "wf_cluster (?s1\<lparr>workers := AList.delete k (workers ?s1)\<rparr>)" by (rule wf_delete)
  then show ?thesis by (simp add: onTerminated_def Let_def)
qed

lemma wf_run_exit_listeners:
  "wf_cluster s \<Longrightarrow> wf_cluster (run_exit_listeners ora ls a code signal now s)"
  by (induction ora ls a code signal now s rule: run_exit_listeners.induct)
    (simp_all add: wf_onExit wf_onTerminated)

lemma wf_worker_exit: "wf_cluster s \<Longrightarrow> wf_cluster (worker_exit ora s a code signal now)"
  by (simp add: worker_exit_def wf_run_exit_listeners)

lemma wf_onMessage: "wf_cluster s \<Longrightarrow> wf_cluster (state_of (onMessage ora s a msg))"
  by (cases "m_type msg")
    (simp_all add: onMessage_def onSystemMessage_def wf_spinUp wf_spinDown wf_emit)

lemma wf_step: "wf_cluster s \<Longrightarrow> wf_cluster (state_of (step ora s c))"
proof (cases c)
  case (SetEnv e)
  assume "wf_cluster s"
  then have "wf_cluster (s\<lparr>env := e\<rparr>)" by (simp add: wf_cluster_def)
  with SetEnv show ?thesis by simp
next
  case (SetRestartOnError b)
  assume "wf_cluster s"
  then have "wf_cluster (s\<lparr>restart_on_error := b\<rparr>)" by (simp add: wf_cluster_def)
  with SetRestartOnError show ?thesis by simp
next
  case (SetRestartOnSignal b)
  assume "wf_cluster s"
  then have "wf_cluster (s\<lparr>restart_on_signal := b\<rparr>)" by (simp add: wf_cluster_def)
  with SetRestartOnSignal show ?thesis by simp
next
  case (SetRestartOnNormalExit b)
  assume "wf_cluster s"
  then have "wf_cluster (s\<lparr>restart_on_normal_exit := b\<rparr>)" by (simp add: wf_cluster_def)
  with SetRestartOnNormalExit show ?thesis by simp
next
  case (SetMinRestartAge m)
  assume "wf_cluster s"
  then have "wf_cluster (s\<lparr>min_restart_age := m\<rparr>)" by (simp add: wf_cluster_def)
  with SetMinRestartAge show ?thesis by simp
qed (simp_all add: wf_start wf_stop wf_spinUp wf_spinDown wf_refreshWorkers wf_onMessage
    wf_worker_exit)

lemma wf_run: "wf_cluster s \<Longrightarrow> wf_cluster (run ora s cs)"
  by (induction cs arbitrary: s) (simp_all add: wf_step)

lemma wf_reachable: "wf_cluster (run ora (new_cluster n e r) cs)"
  by (rule wf_run) (rule wf_new_cluster)

subsection \<open>Restart after an error exit\<close>

lemma after_death_fields:
  "heap (after_death s a code signal now) = (heap s)[a := (heap s ! a)\<lparr>DEATH_TIME := Some now\<rparr>]"
  "workers (after_death s a code signal now) = AList.delete (WORKER_ID (heap s ! a)) (workers s)"
  "emitted (after_death s a code signal now) = emitted s @ [Death a code signal]"
  "target_workers (after_death s a code signal now) = target_workers s"
  by (simp_all add: after_death_def emit_def)

lemma respawn_fields:
  "heap (respawn ora s a code signal) = heap (snd (spawnWorker ora s))"
  "workers (respawn ora s a code signal) = workers (snd (spawnWorker ora s))"
  "emitted (respawn ora s a code signal)
     = emitted s @ [Restart a (Some (length (heap s))) code signal]"
  "target_workers (respawn ora s a code signal) = target_workers s"
proof -
  have "map_of (workers (snd (spawnWorker ora s))) (fst (spawnWorker ora s)) = Some (length (heap s))"
    by (simp add: spawnWorker_workers spawnWorker_fst update_conv')
  moreover have "emitted (snd (spawnWorker ora s)) = emitted s"
    and "target_workers (snd (spawnWorker ora s)) = target_workers s"
    by (simp_all add: spawnWorker_def Let_def)
  ultimately show
    "heap (respawn ora s a code signal) = heap (snd (spawnWorker ora s))"
    "workers (respawn ora s a code signal) = workers (snd (spawnWorker ora s))"
    "emitted (respawn ora s a code signal)
       = emitted s @ [Restart a (Some (length (heap s))) code signal]"
    "target_workers (respawn ora s a code signal) = target_workers s"
    by (simp_all add: respawn_def split_beta emit_def)
qed

lemma length_delete_present:
  "distinct (map fst al) \<Longrightarrow> k \<in> fst ` set al \<Longrightarrow> Suc (length (AList.delete k al)) = length al"
proof (induction al)
  case Nil
  then show ?case by simp
next
  case (Cons p al)
  show ?case
  proof (cases "fst p = k")
    case True
    with Cons.prems have "k \<notin> fst ` set al" by auto
    then have "AList.delete k al = al" by (rule delete_id)
    with True show ?thesis by (cases p) simp
  next
    case False
    with Cons show ?thesis by (cases p) auto
  qed
qed

lemma policy_error_exit:
  "c \<noteq> 0 \<Longrightarrow>
   restart_policy s a (Some c) None now \<longleftrightarrow>
     int (length (AList.delete (WORKER_ID (heap s ! a)) (workers s))) < target_workers s
     \<and> restart_on_error s \<and> min_restart_age s \<le> now - BIRTH_TIME (heap s ! a)"
  by (auto simp: restart_policy_def truthy_def)

text \<open>
  C1. An exit notification with no signal and a nonzero code, handled by
  \<^verbatim>\<open>#onExit\<close> for the worker \<open>a\<close>. Let \<open>rest\<close> be the registry without the
  worker's identity. A new handle is created (a replacement is spawned) exactly when
  the size of \<open>rest\<close> is below \<open>target_workers\<close>, \<open>restart_on_error\<close> is set
  and the age, time of death minus time of birth, is at least \<open>min_restart_age\<close>.
  Then the handler emits \<^verbatim>\<open>death\<close> and exactly one \<^verbatim>\<open>restart\<close> with
  (old worker, new worker, code, signal), and the new worker is registered under its
  fresh identity. Otherwise it emits \<^verbatim>\<open>death\<close> alone, the registry is
  \<open>rest\<close>, and for a worker that was registered the running count is one less.
\<close>

theorem onExit_error_exit:
  assumes "c \<noteq> 0"
    and "s' = onExit ora s a (Some c) None now"
    and "rest = AList.delete (WORKER_ID (heap s ! a)) (workers s)"
    and "replace \<longleftrightarrow> int (length rest) < target_workers s \<and> restart_on_error s
           \<and> min_restart_age s \<le> now - BIRTH_TIME (heap s ! a)"
  shows "(length (heap s') = Suc (length (heap s)) \<longleftrightarrow> replace)
    \<and> (replace \<longrightarrow>
          emitted s' = emitted s @ [Death a (Some c) None,
                                    Restart a (Some (length (heap s))) (Some c) None]
          \<and> workers s' = AList.update (gen_WORKER_ID (ora (length (heap s)))) (length (heap s)) rest
          \<and> WORKER_ID (heap s' ! length (heap s)) = gen_WORKER_ID (ora (length (heap s)))
          \<and> exit_listeners (heap s' ! length (heap s)) = [DefaultOnExit])
    \<and> (\<not> replace \<longrightarrow>
          emitted s' = emitted s @ [Death a (Some c) None]
          \<and> workers s' = rest
          \<and> length (heap s') = length (heap s))
    \<and> (\<not> replace \<and> distinct (keys s) \<and> WORKER_ID (heap s ! a) \<in> set (keys s) \<longrightarrow>
          running_workers s' + 1 = running_workers s)"
proof -
  let ?d = "after_death s a (Some c) None now"
  from assms(1) have pol: "restart_policy s a (Some c) None now \<longleftrightarrow> replace"
    by (simp add: policy_error_exit assms(3,4))
  have lh: "length (heap ?d) = length (heap s)" by (simp add: after_death_fields)
  show ?thesis
  proof (cases replace)
    case True
    with pol have s': "s' = respawn ora ?d a (Some c) None" by (simp add: assms(2) onExit_steps)
    have h: "heap s' = heap ?d @
       [\<lparr>WORKER_ID = gen_WORKER_ID (ora (length (heap s))),
         BIRTH_TIME = birth_clock (ora (length (heap s))), DEATH_TIME = None,
         fork_env = [''WORKER_ID'' \<mapsto> gen_WORKER_ID (ora (length (heap s)))] ++ env ?d,
         exit_listeners = [DefaultOnExit], sent = []\<rparr>]"
      by (simp add: s' respawn_fields spawnWorker_heap lh)
    have "length (heap s') = Suc (length (heap s))" by (simp add: h lh)
    moreover have "emitted s' = emitted s @ [Death a (Some c) None,
        Restart a (Some (length (heap s))) (Some c) None]"
      by (simp add: s' respawn_fields after_death_fields)
    moreover have "workers s'
        = AList.update (gen_WORKER_ID (ora (length (heap s)))) (length (heap s)) rest"
      by (simp add: s' respawn_fields spawnWorker_workers after_death_fields assms(3))
    moreover have "WORKER_ID (heap s' ! length (heap s)) = gen_WORKER_ID (ora (length (heap s)))"
      and "exit_listeners (heap s' ! length (heap s)) = [DefaultOnExit]"
      using lh by (simp_all add: h nth_append)
    ultimately show ?thesis using True by simp
  next
    case False
    with pol have s': "s' = ?d" by (simp add: assms(2) onExit_steps)
    have "running_workers s' + 1 = running_workers s"
      if "distinct (keys s)" "WORKER_ID (heap s ! a) \<in> set (keys s)"
      using that length_delete_present [of "workers s" "WORKER_ID (heap s ! a)"]
      by (simp add: s' running_workers_def keys_def after_death_fields)
    with False show ?thesis by (simp add: s' after_death_fields assms(3))
  qed
qed


lemma example_pool1:
  "example_pool 1 =
     \<lparr>target_workers = 1, env = Map.empty,
      restart_on_error = True, restart_on_signal = True,
      restart_on_normal_exit = False, min_restart_age = 500,
      workers = [(''6553f10007070707abababab'', 0)],
      heap = [\<lparr>WORKER_ID = ''6553f10007070707abababab'', BIRTH_TIME = 1700000000000,
               DEATH_TIME = None, fork_env = [''WORKER_ID'' \<mapsto> ''6553f10007070707abababab''],
               exit_listeners = [DefaultOnExit], sent = []\<rparr>],
      emitted = []\<rparr>"
proof -
  have "birth_clock (example_oracle 1700000000000 0) = 1700000000000"
    by (simp add: example_oracle_def)
  then show ?thesis
    by (simp add: example_pool_def example_clock_def start_def new_cluster_def default_restart_def
        spawnWorker_def Let_def example_identity)
qed

theorem onExit_error_exit_witness:
  "(1::int) \<noteq> 0
   \<and> emitted (onExit (example_oracle example_clock) (example_pool 1) 0 (Some 1) None
        (example_clock + 600))
       = [Death 0 (Some 1) None, Restart 0 (Some 1) (Some 1) None]
   \<and> length (heap (onExit (example_oracle example_clock) (example_pool 1) 0 (Some 1) None
        (example_clock + 600))) = 2
   \<and> emitted (onExit (example_oracle example_clock) (example_pool 1) 0 (Some 1) None
        (example_clock + 100))
       = [Death 0 (Some 1) None]
   \<and> running_workers (onExit (example_oracle example_clock) (example_pool 1) 0 (Some 1) None
        (example_clock + 100)) + 1 = running_workers (example_pool 1)"
proof -
  have c: "(1::int) \<noteq> 0" by simp
  have pool: "target_workers (example_pool 1) = 1" "restart_on_error (example_pool 1)"
    "min_restart_age (example_pool 1) = 500" "emitted (example_pool 1) = []"
    "workers (example_pool 1) = [(''6553f10007070707abababab'', 0)]"
    "length (heap (example_pool 1)) = 1"
    "WORKER_ID (heap (example_pool 1) ! 0) = ''6553f10007070707abababab''"
    "BIRTH_TIME (heap (example_pool 1) ! 0) = 1700000000000"
    by (simp_all add: example_pool1)
  have k: "keys (example_pool 1) = [''6553f10007070707abababab'']"
    by (simp add: keys_def pool)
  from onExit_error_exit [OF c refl refl refl,
      of "example_oracle example_clock" "example_pool 1" 0 "example_clock + 600"]
    onExit_error_exit [OF c refl refl refl,
      of "example_oracle example_clock" "example_pool 1" 0 "example_clock + 100"]
  show ?thesis
    by (simp add: pool k example_clock_def)
qed

subsection \<open>A record that left the registry stays out\<close>

lemma gone_cong:
  "workers s' = workers s \<Longrightarrow> length (heap s') = length (heap s) \<Longrightarrow> gone a s' = gone a s"
  by (simp add: gone_def)

lemma gone_emit: "gone a (emit ev s) = gone a s"
  by (rule gone_cong) (simp_all add: emit_def)

lemma gone_delete: "gone a s \<Longrightarrow> gone a (s\<lparr>workers := AList.delete k (workers s)\<rparr>)"
  using set_delete_subset [of k "workers s"] by (auto simp: gone_def)

lemma gone_spawnWorker: "gone a s \<Longrightarrow> gone a (snd (spawnWorker ora s))"
  using set_update_subset [of "gen_WORKER_ID (ora (length (heap s)))" "length (heap s)" "workers s"]
  by (auto simp: gone_def spawnWorker_workers spawnWorker_heap)

lemma gone_spawn_times: "gone a s \<Longrightarrow> gone a (spawn_times ora n s)"
  by (induction n arbitrary: s) (simp_all add: gone_spawnWorker)

lemma gone_terminate_each: "gone a (state_of (terminate_each ks s)) = gone a s"
  by (rule gone_cong) (simp_all add: terminate_each_frame)

lemma gone_target: "gone a (s\<lparr>target_workers := n\<rparr>) = gone a s"
  by (simp add: gone_def)

lemma gone_spinDown: "gone a (state_of (spinDown s x force)) = gone a s"
  by (simp add: spinDown_def Let_def gone_terminate_each gone_target)

lemma gone_spinUp: "gone a s \<Longrightarrow> gone a (spinUp ora s x)"
  by (simp add: spinUp_def gone_spawn_times gone_target)

lemma gone_after_death: "gone a s \<Longrightarrow> gone a (after_death s b code signal now)"
  using set_delete_subset [of "WORKER_ID (heap s ! b)" "workers s"]
  by (auto simp: gone_def after_death_fields)

lemma gone_respawn: "gone a s \<Longrightarrow> gone a (respawn ora s b code signal)"
  using gone_spawnWorker [of a s ora] by (simp add: gone_def respawn_fields)

lemma gone_onExit: "gone a s \<Longrightarrow> gone a (onExit ora s b code signal now)"
  by (simp add: onExit_steps gone_after_death gone_respawn)

lemma gone_onTerminated: "gone a s \<Longrightarrow> gone a (onTerminated s b k code signal)"
  using set_delete_subset [of k "workers s"]
  by (auto simp: gone_def onTerminated_def Let_def emit_def)

lemma gone_run_exit_listeners:
  "gone a s \<Longrightarrow> gone a (run_exit_listeners ora ls b code signal now s)"
  by (induction ora ls b code signal now s rule: run_exit_listeners.induct)
    (simp_all add: gone_onExit gone_onTerminated)

lemma gone_worker_exit: "gone a s \<Longrightarrow> gone a (worker_exit ora s b code signal now)"
  by (simp add: worker_exit_def gone_run_exit_listeners)

lemma gone_onMessage: "gone a s \<Longrightarrow> gone a (state_of (onMessage ora s b msg))"
  by (cases "m_type msg")
    (simp_all add: onMessage_def onSystemMessage_def gone_spinUp gone_spinDown gone_emit)

lemma gone_step: "gone a s \<Longrightarrow> gone a (state_of (step ora s c))"
  by (cases c)
    (simp_all add: gone_spinUp gone_spinDown gone_onMessage gone_worker_exit
      start_def refreshWorkers_def Let_def gone_spawn_times stop_def gone_terminate_each,
     simp_all add: gone_def)

lemma gone_run: "gone a s \<Longrightarrow> gone a (run ora s cs)"
  by (induction cs arbitrary: s) (simp_all add: gone_step)

lemma wf_delete_own_identity:
  assumes "wf_cluster s"
  shows "a \<notin> snd ` set (AList.delete (WORKER_ID (heap s ! a)) (workers s))"
proof
  assume "a \<in> snd ` set (AList.delete (WORKER_ID (heap s ! a)) (workers s))"
  then obtain k where k: "(k, a) \<in> set (AList.delete (WORKER_ID (heap s ! a)) (workers s))"
    by auto
  then have "(k, a) \<in> set (workers s)" and "k \<noteq> WORKER_ID (heap s ! a)"
    by (auto simp: AList.delete_eq)
  with assms show False by (auto simp: wf_cluster_def)
qed


lemma worker_exit_default:
  "a < length (heap s) \<Longrightarrow> exit_listeners (heap s ! a) = [DefaultOnExit] \<Longrightarrow>
     worker_exit ora s a code signal now = onExit ora s a code signal now"
  by (simp add: worker_exit_def)

lemma worker_exit_terminated:
  "a < length (heap s) \<Longrightarrow> exit_listeners (heap s ! a) = [Terminated k] \<Longrightarrow>
     worker_exit ora s a code signal now = onTerminated s a k code signal"
  by (simp add: worker_exit_def)

lemma onTerminated_fields:
  "heap (onTerminated s a k code signal) = heap s"
  "workers (onTerminated s a k code signal) = AList.delete k (workers s)"
  "emitted (onTerminated s a k code signal)
     = emitted s @ (if truthy signal \<or> code \<noteq> Some 0 then [Death a code signal] else [])"
  "target_workers (onTerminated s a k code signal) = target_workers s"
  by (simp_all add: onTerminated_def Let_def emit_def)

lemma onExit_heap_old:
  assumes "a < length (heap s)"
  shows "heap (onExit ora s a code signal now) ! a = (heap s ! a)\<lparr>DEATH_TIME := Some now\<rparr>"
proof -
  let ?d = "after_death s a code signal now"
  from assms have d: "heap ?d ! a = (heap s ! a)\<lparr>DEATH_TIME := Some now\<rparr>"
    and l: "a < length (heap ?d)"
    by (simp_all add: after_death_fields)
  then have "heap (respawn ora ?d a code signal) ! a = (heap s ! a)\<lparr>DEATH_TIME := Some now\<rparr>"
    by (simp add: respawn_fields spawnWorker_heap nth_append)
  with d show ?thesis by (simp add: onExit_steps)
qed

lemma onExit_emitted:
  "take (Suc (length (emitted s))) (emitted (onExit ora s a code signal now))
     = emitted s @ [Death a code signal]"
  by (simp add: onExit_steps respawn_fields after_death_fields)

lemma onExit_registry:
  "snd ` set (workers (onExit ora s a code signal now))
     \<subseteq> insert (length (heap s)) (snd ` set (workers s))"
proof (rule subsetI)
  fix b
  let ?d = "after_death s a code signal now"
  assume "b \<in> snd ` set (workers (onExit ora s a code signal now))"
  then obtain k where k: "(k, b) \<in> set (workers (onExit ora s a code signal now))" by auto
  have d: "set (workers ?d) \<subseteq> set (workers s)"
    by (simp add: after_death_fields set_delete_subset)
  have l: "length (heap ?d) = length (heap s)" by (simp add: after_death_fields)
  have r: "set (workers (respawn ora ?d a code signal))
      \<subseteq> insert (gen_WORKER_ID (ora (length (heap s))), length (heap s)) (set (workers ?d))"
    using set_update_subset [of "gen_WORKER_ID (ora (length (heap s)))" "length (heap s)" "workers ?d"]
    by (simp add: respawn_fields spawnWorker_workers l)
  from k have "(k, b) \<in> set (workers (respawn ora ?d a code signal)) \<or> (k, b) \<in> set (workers ?d)"
    by (simp add: onExit_steps split: if_splits)
  with r have "(k, b) = (gen_WORKER_ID (ora (length (heap s))), length (heap s))
      \<or> (k, b) \<in> set (workers ?d)" by blast
  with d have "b = length (heap s) \<or> (k, b) \<in> set (workers s)" by blast
  then show "b \<in> insert (length (heap s)) (snd ` set (workers s))" by force
qed

text \<open>
  C5, as the code has it. Every handle carries exactly one \<^verbatim>\<open>exit\<close> listener, so
  an exit notification runs one removal. After it no registry entry leads to the
  handle, and none ever will again, whatever is called afterwards with whatever clock
  and random source. Under the default listener the time of death is set,
  \<^verbatim>\<open>death\<close> is emitted first with (worker, code, signal), and the only handle that
  can have entered the registry is a new one. Under the listener of
  \<^verbatim>\<open>#terminateWorker\<close> the time of death stays as it was and \<^verbatim>\<open>death\<close>
  is emitted only for a signal or a nonzero code.
\<close>

theorem exit_removes_record:
  assumes "wf_cluster s" and "a < length (heap s)"
    and "s' = worker_exit ora s a code signal now"
  shows "(exit_listeners (heap s ! a) = [DefaultOnExit]
           \<or> exit_listeners (heap s ! a) = [Terminated (WORKER_ID (heap s ! a))])
    \<and> gone a s'
    \<and> (\<forall>ora' cs. gone a (run ora' s' cs))
    \<and> (exit_listeners (heap s ! a) = [DefaultOnExit] \<longrightarrow>
          DEATH_TIME (heap s' ! a) = Some now
          \<and> take (Suc (length (emitted s))) (emitted s') = emitted s @ [Death a code signal]
          \<and> snd ` set (workers s') \<subseteq> insert (length (heap s)) (snd ` set (workers s)))
    \<and> (exit_listeners (heap s ! a) = [Terminated (WORKER_ID (heap s ! a))] \<longrightarrow>
          DEATH_TIME (heap s' ! a) = DEATH_TIME (heap s ! a)
          \<and> emitted s' = emitted s
               @ (if truthy signal \<or> code \<noteq> Some 0 then [Death a code signal] else [])
          \<and> workers s' = AList.delete (WORKER_ID (heap s ! a)) (workers s))"
proof -
  let ?k = "WORKER_ID (heap s ! a)"
  from assms(1,2) have one: "exit_listeners (heap s ! a) = [DefaultOnExit]
      \<or> exit_listeners (heap s ! a) = [Terminated ?k]"
    by (simp add: wf_cluster_def)
  have own: "a \<notin> snd ` set (AList.delete ?k (workers s))"
    using assms(1) by (rule wf_delete_own_identity)
  have default: "gone a s' \<and> DEATH_TIME (heap s' ! a) = Some now
      \<and> take (Suc (length (emitted s))) (emitted s') = emitted s @ [Death a code signal]
      \<and> snd ` set (workers s') \<subseteq> insert (length (heap s)) (snd ` set (workers s))"
    if l: "exit_listeners (heap s ! a) = [DefaultOnExit]"
  proof -
    have s': "s' = onExit ora s a code signal now"
      using assms(2) l by (simp add: assms(3) worker_exit_default)
    have "gone a (after_death s a code signal now)"
      using own assms(2) by (simp add: gone_def after_death_fields)
    then have "gone a s'" by (simp add: s' onExit_steps gone_respawn)
    then show ?thesis
      using onExit_heap_old [OF assms(2), of ora code signal now]
      by (simp add: s' onExit_emitted onExit_registry)
  qed
  have terminated: "gone a s' \<and> DEATH_TIME (heap s' ! a) = DEATH_TIME (heap s ! a)
      \<and> emitted s' = emitted s
           @ (if truthy signal \<or> code \<noteq> Some 0 then [Death a code signal] else [])
      \<and> workers s' = AList.delete ?k (workers s)"
    if l: "exit_listeners (heap s ! a) = [Terminated ?k]"
  proof -
    have s': "s' = onTerminated s a ?k code signal"
      using assms(2) l by (simp add: assms(3) worker_exit_terminated)
    then show ?thesis
      using own assms(2) by (simp add: gone_def onTerminated_fields)
  qed
  from one default terminated have g: "gone a s'" by blast
  then have "\<forall>ora' cs. gone a (run ora' s' cs)" by (simp add: gone_run)
  with one g default terminated show ?thesis by blast
qed


lemma wf_example_pool: "wf_cluster (example_pool n)"
  by (simp add: example_pool_def wf_start wf_new_cluster)

lemma wf_example_stopped: "wf_cluster example_stopped"
  by (simp add: example_stopped_def wf_stop wf_example_pool)

lemma example_stopped_fields:
  "workers example_stopped = [(''6553f10007070707abababab'', 0)]"
  "length (heap example_stopped) = 1"
  "WORKER_ID (heap example_stopped ! 0) = ''6553f10007070707abababab''"
  "exit_listeners (heap example_stopped ! 0) = [Terminated ''6553f10007070707abababab'']"
  "sent (heap example_stopped ! 0) = [exit_envelope ''6553f10007070707abababab'']"
  "DEATH_TIME (heap example_stopped ! 0) = None"
  "emitted example_stopped = []"
  "target_workers example_stopped = 1"
  by (simp_all add: example_stopped_def stop_def keys_def example_pool1 terminateWorker_def Let_def)

theorem exit_removes_record_witness:
  "wf_cluster (example_pool 1) \<and> 0 < length (heap (example_pool 1))
   \<and> exit_listeners (heap (example_pool 1) ! 0) = [DefaultOnExit]
   \<and> gone 0 (worker_exit (example_oracle example_clock) (example_pool 1) 0 (Some 1) None
        (example_clock + 600))
   \<and> DEATH_TIME (heap (worker_exit (example_oracle example_clock) (example_pool 1) 0 (Some 1) None
        (example_clock + 600)) ! 0) = Some (example_clock + 600)
   \<and> wf_cluster example_stopped \<and> 0 < length (heap example_stopped)
   \<and> exit_listeners (heap example_stopped ! 0) = [Terminated (WORKER_ID (heap example_stopped ! 0))]
   \<and> gone 0 (worker_exit (example_oracle example_clock) example_stopped 0 (Some 1) None
        (example_clock + 600))
   \<and> emitted (worker_exit (example_oracle example_clock) example_stopped 0 (Some 1) None
        (example_clock + 600)) = [Death 0 (Some 1) None]
   \<and> workers (worker_exit (example_oracle example_clock) example_stopped 0 (Some 1) None
        (example_clock + 600)) = []"
proof -
  have p: "0 < length (heap (example_pool 1))"
    "exit_listeners (heap (example_pool 1) ! 0) = [DefaultOnExit]"
    by (simp_all add: example_pool1)
  have q: "0 < length (heap example_stopped)"
    "exit_listeners (heap example_stopped ! 0) = [Terminated (WORKER_ID (heap example_stopped ! 0))]"
    by (simp_all add: example_stopped_fields)
  from exit_removes_record [OF wf_example_pool p(1) refl,
      of "example_oracle example_clock" "Some 1" None "example_clock + 600"]
    exit_removes_record [OF wf_example_stopped q(1) refl,
      of "example_oracle example_clock" "Some 1" None "example_clock + 600"]
    p q wf_example_pool [of 1] wf_example_stopped
  show ?thesis by (simp add: example_stopped_fields truthy_def)
qed

text \<open>
  The claim as written fails for a worker under termination that exits normally: the
  listener of \<^verbatim>\<open>#terminateWorker\<close> removes the record, but sets no time of death
  and emits no \<^verbatim>\<open>death\<close>.
\<close>

theorem exit_removes_record_counterexample:
  "exit_listeners (heap example_stopped ! 0) = [Terminated ''6553f10007070707abababab'']
   \<and> workers (worker_exit (example_oracle example_clock) example_stopped 0 (Some 0) None
        (example_clock + 1000)) = []
   \<and> DEATH_TIME (heap (worker_exit (example_oracle example_clock) example_stopped 0 (Some 0) None
        (example_clock + 1000)) ! 0) = None
   \<and> emitted (worker_exit (example_oracle example_clock) example_stopped 0 (Some 0) None
        (example_clock + 1000)) = []"
proof -
  have "worker_exit (example_oracle example_clock) example_stopped 0 (Some 0) None
      (example_clock + 1000)
      = onTerminated example_stopped 0 ''6553f10007070707abababab'' (Some 0) None"
    by (rule worker_exit_terminated) (simp_all add: example_stopped_fields)
  then show ?thesis
    by (simp add: onTerminated_fields example_stopped_fields truthy_def)
qed

subsection \<open>Terminating several workers\<close>

lemma keys_past_the_end:
  "map (key_at ks) [0..<n] = take n ks @ replicate (n - length ks) ''undefined''"
proof (induction n)
  case 0
  show ?case by simp
next
  case (Suc n)
  show ?case
  proof (cases "n < length ks")
    case True
    with Suc show ?thesis by (simp add: key_at_def take_Suc_conv_app_nth)
  next
    case False
    then have "Suc n - length ks = Suc (n - length ks)" by simp
    with False Suc show ?thesis
      by (simp add: key_at_def replicate_append_same)
  qed
qed

lemma terminate_each_append:
  "terminate_each (ks @ ks') s =
     (case terminate_each ks s of Inl e \<Rightarrow> Inl e | Inr s' \<Rightarrow> terminate_each ks' s')"
  by (induction ks arbitrary: s) (simp_all split: sum.splits)

lemma terminateWorker_heap:
  "map_of (workers s) k = Some a \<Longrightarrow>
     terminateWorker s k = Inr (s\<lparr>heap := (heap s)[a := terminated_handle k (heap s ! a)]\<rparr>)"
  by (simp add: terminateWorker_present terminated_handle_def)

lemma terminate_each_registered:
  "set ks \<subseteq> fst ` set (workers s) \<Longrightarrow> \<exists>s'. terminate_each ks s = Inr s'"
proof (induction ks arbitrary: s)
  case Nil
  show ?case by simp
next
  case (Cons k ks)
  then have "k \<in> fst ` set (workers s)" by simp
  then obtain a where a: "map_of (workers s) k = Some a"
    by (metis domD dom_map_of_conv_image_fst)
  let ?s1 = "s\<lparr>heap := (heap s)[a := terminated_handle k (heap s ! a)]\<rparr>"
  from Cons.prems have "set ks \<subseteq> fst ` set (workers ?s1)" by simp
  from Cons.IH [OF this] a show ?case by (simp add: terminateWorker_heap)
qed

lemma undefined_not_key: "wf_cluster s \<Longrightarrow> ''undefined'' \<notin> fst ` set (workers s)"
proof
  assume "wf_cluster s" and u: "''undefined'' \<in> fst ` set (workers s)"
  then have "\<forall>k \<in> set (map fst (workers s)). 24 \<le> length k" by (simp add: wf_cluster_def)
  with u have "24 \<le> length ''undefined''" by (metis set_map)
  then show False by simp
qed

lemma terminateWorker_undefined:
  "wf_cluster s \<Longrightarrow> terminateWorker s ''undefined'' = Inl (TypeError, s)"
  by (rule terminateWorker_missing)
    (metis undefined_not_key domIff dom_map_of_conv_image_fst)

text \<open>
  C10. A forced \<^verbatim>\<open>spinDown(x, true)\<close> with \<open>x\<close> above the number of registered
  workers throws a \<^verbatim>\<open>TypeError\<close>. At the throw \<open>target_workers\<close> has already been
  lowered by \<open>x\<close>, and every registered worker has been handled as by
  \<^verbatim>\<open>stop()\<close>; the registry itself is as before. With \<open>x\<close> at most the number of
  registered workers the call returns.
\<close>

theorem spinDown_force_past_the_end:
  assumes "wf_cluster s"
  shows "(int (running_workers s) < x \<longrightarrow>
            (\<exists>s'. spinDown s x True = Inl (TypeError, s')
               \<and> target_workers s' = target_workers s - x
               \<and> stop (s\<lparr>target_workers := target_workers s - x\<rparr>) = Inr s'
               \<and> workers s' = workers s))
    \<and> (x \<le> int (running_workers s) \<longrightarrow> (\<exists>s'. spinDown s x True = Inr s'))"
proof -
  let ?s1 = "s\<lparr>target_workers := target_workers s - x\<rparr>"
  let ?ks = "keys ?s1"
  have ks: "?ks = map fst (workers s)" by (simp add: keys_def)
  have sd: "spinDown s x True
      = terminate_each (take (nat x) ?ks @ replicate (nat x - length ?ks) ''undefined'') ?s1"
    by (simp add: spinDown_def Let_def keys_past_the_end)
  have past: "\<exists>s'. spinDown s x True = Inl (TypeError, s')
               \<and> target_workers s' = target_workers s - x
               \<and> stop ?s1 = Inr s' \<and> workers s' = workers s"
    if "int (running_workers s) < x"
  proof -
    from that have n: "length ?ks < nat x" by (simp add: running_workers_def keys_def)
    have "set ?ks \<subseteq> fst ` set (workers ?s1)" by (simp add: keys_def)
    then obtain s' where s': "terminate_each ?ks ?s1 = Inr s'"
      using terminate_each_registered by blast
    with terminate_each_frame [of ?ks ?s1]
    have fr: "workers s' = workers s" "target_workers s' = target_workers s - x" by simp_all
    from assms have "wf_cluster ?s1" by (simp add: wf_cluster_def)
    with wf_terminate_each [of ?s1 ?ks] s' have "wf_cluster s'" by simp
    then have u: "terminateWorker s' ''undefined'' = Inl (TypeError, s')"
      by (rule terminateWorker_undefined)
    from n obtain m where m: "nat x - length ?ks = Suc m" by (cases "nat x - length ?ks") simp_all
    from n have "take (nat x) ?ks = ?ks" by simp
    with sd s' u m have "spinDown s x True = Inl (TypeError, s')"
      by (simp add: terminate_each_append)
    with s' fr show ?thesis by (simp add: stop_def)
  qed
  have within: "\<exists>s'. spinDown s x True = Inr s'" if "x \<le> int (running_workers s)"
  proof -
    from that have "nat x - length ?ks = 0" by (simp add: running_workers_def keys_def)
    then have "spinDown s x True = terminate_each (take (nat x) ?ks) ?s1" by (simp add: sd)
    moreover have "set (take (nat x) ?ks) \<subseteq> fst ` set (workers ?s1)"
      using set_take_subset [of "nat x" ?ks] by (simp add: keys_def)
    ultimately show ?thesis using terminate_each_registered by metis
  qed
  from past within show ?thesis by blast
qed


lemma example_pool_running: "running_workers (example_pool 1) = 1"
  by (simp add: running_workers_def keys_def example_pool1)

theorem spinDown_force_past_the_end_witness:
  "wf_cluster (example_pool 1)
   \<and> int (running_workers (example_pool 1)) < 2
   \<and> isl (spinDown (example_pool 1) 2 True)
   \<and> fst (projl (spinDown (example_pool 1) 2 True)) = TypeError
   \<and> target_workers (state_of (spinDown (example_pool 1) 2 True)) = - 1
   \<and> (1::int) \<le> int (running_workers (example_pool 1))
   \<and> \<not> isl (spinDown (example_pool 1) 1 True)"
proof -
  have a: "int (running_workers (example_pool 1)) < 2"
    and b: "(1::int) \<le> int (running_workers (example_pool 1))"
    by (simp_all add: example_pool_running)
  have t: "target_workers (example_pool 1) = 1" by (simp add: example_pool1)
  from spinDown_force_past_the_end [OF wf_example_pool, of 1 2] a
  obtain s' where "spinDown (example_pool 1) 2 True = Inl (TypeError, s')"
    and "target_workers s' = target_workers (example_pool 1) - 2" by blast
  then have c: "isl (spinDown (example_pool 1) 2 True)"
    "fst (projl (spinDown (example_pool 1) 2 True)) = TypeError"
    "target_workers (state_of (spinDown (example_pool 1) 2 True)) = - 1"
    by (simp_all add: t)
  from spinDown_force_past_the_end [OF wf_example_pool, of 1 1] b
  obtain s'' where "spinDown (example_pool 1) 1 True = Inr s''" by blast
  then have d: "\<not> isl (spinDown (example_pool 1) 1 True)" by simp
  from a b c d wf_example_pool [of 1] show ?thesis by simp
qed

subsection \<open>Forced spin-down\<close>

lemma terminate_each_heap:
  assumes "wf_cluster s" "distinct ks" "set ks \<subseteq> fst ` set (workers s)"
    and "terminate_each ks s = Inr s'"
  shows "\<forall>(k, b) \<in> set (workers s).
           heap s' ! b = (if k \<in> set ks then terminated_handle k (heap s ! b) else heap s ! b)"
  using assms
proof (induction ks arbitrary: s)
  case Nil
  then show ?case by simp
next
  case (Cons k ks)
  from Cons.prems(3) have "k \<in> fst ` set (workers s)" by simp
  then obtain a where a: "map_of (workers s) k = Some a"
    by (metis domD dom_map_of_conv_image_fst)
  let ?s1 = "s\<lparr>heap := (heap s)[a := terminated_handle k (heap s ! a)]\<rparr>"
  have tw: "terminateWorker s k = Inr ?s1" using a by (rule terminateWorker_heap)
  with Cons.prems(4) have rest: "terminate_each ks ?s1 = Inr s'" by simp
  from wf_terminateWorker [OF Cons.prems(1), of k] tw have wf1: "wf_cluster ?s1" by simp
  from Cons.prems have d: "distinct ks" "k \<notin> set ks" "set ks \<subseteq> fst ` set (workers ?s1)"
    by simp_all
  note ih = Cons.IH [OF wf1 d(1) d(3) rest]
  from a have ka: "(k, a) \<in> set (workers s)" by (rule map_of_SomeD)
  with Cons.prems(1) have al: "a < length (heap s)" and aid: "WORKER_ID (heap s ! a) = k"
    by (auto simp: wf_cluster_def)
  show ?case
  proof (intro ballI, clarify)
    fix k' b
    assume kb: "(k', b) \<in> set (workers s)"
    with Cons.prems(1) have bid: "WORKER_ID (heap s ! b) = k'" by (auto simp: wf_cluster_def)
    from kb ih have h: "heap s' ! b
        = (if k' \<in> set ks then terminated_handle k' (heap ?s1 ! b) else heap ?s1 ! b)"
      by auto
    show "heap s' ! b
        = (if k' \<in> set (k # ks) then terminated_handle k' (heap s ! b) else heap s ! b)"
    proof (cases "k' = k")
      case True
      from Cons.prems(1) have "distinct (map fst (workers s))" by (simp add: wf_cluster_def)
      with kb True a have "b = a" by (metis map_of_is_SomeI option.inject)
      with True d(2) al h show ?thesis by simp
    next
      case False
      with aid bid have "b \<noteq> a" by auto
      with False h show ?thesis by simp
    qed
  qed
qed

lemma exits_Cons:
  "exits ora ((a, code, signal, now) # es) s = exits ora es (worker_exit ora s a code signal now)"
  by (simp add: exits_def)

lemma delete_filter: "AList.delete k al = filter (\<lambda>p. fst p \<noteq> k) al"
  by (induction al) auto

lemma exits_of_terminated:
  assumes "\<forall>e \<in> set es. fst e < length (heap s)
             \<and> exit_listeners (heap s ! fst e) = [Terminated (WORKER_ID (heap s ! fst e))]"
  shows "heap (exits ora es s) = heap s
    \<and> target_workers (exits ora es s) = target_workers s
    \<and> workers (exits ora es s)
        = filter (\<lambda>p. fst p \<notin> (\<lambda>e. WORKER_ID (heap s ! fst e)) ` set es) (workers s)"
  using assms
proof (induction es arbitrary: s)
  case Nil
  show ?case by (simp add: exits_def)
next
  case (Cons e es)
  obtain a code signal now where e: "e = (a, code, signal, now)" by (cases e) auto
  let ?k = "WORKER_ID (heap s ! a)"
  let ?s1 = "onTerminated s a ?k code signal"
  from Cons.prems e have we: "worker_exit ora s a code signal now = ?s1"
    by (intro worker_exit_terminated) simp_all
  have h1: "heap ?s1 = heap s" by (simp add: onTerminated_fields)
  from Cons.prems have "\<forall>e \<in> set es. fst e < length (heap ?s1)
      \<and> exit_listeners (heap ?s1 ! fst e) = [Terminated (WORKER_ID (heap ?s1 ! fst e))]"
    by (simp add: h1)
  from Cons.IH [OF this] show ?case
    by (simp add: e exits_Cons we h1 onTerminated_fields delete_filter)
qed

lemma filter_first_keys:
  assumes "distinct (map fst al)"
  shows "filter (\<lambda>p. fst p \<notin> set (take n (map fst al))) al = drop n al"
proof -
  have al: "al = take n al @ drop n al" by simp
  from assms have "distinct (map fst (take n al) @ map fst (drop n al))"
    by (metis al map_append)
  then have disj: "set (map fst (take n al)) \<inter> set (map fst (drop n al)) = {}" by simp
  have t: "filter (\<lambda>p. fst p \<notin> set (map fst (take n al))) (take n al) = []"
    by (simp add: filter_empty_conv)
  have "\<forall>p \<in> set (drop n al). fst p \<notin> set (map fst (take n al))"
    using disj by auto
  then have d: "filter (\<lambda>p. fst p \<notin> set (map fst (take n al))) (drop n al) = drop n al"
    by (simp add: filter_id_conv)
  have "filter (\<lambda>p. fst p \<notin> set (map fst (take n al))) (take n al @ drop n al) = drop n al"
    by (simp only: filter_append t d append_Nil)
  then show ?thesis by (simp add: take_map)
qed


lemma nth_in_take:
  "distinct xs \<Longrightarrow> i < length xs \<Longrightarrow> xs ! i \<in> set (take m xs) \<longleftrightarrow> i < m"
proof
  assume d: "distinct xs" and i: "i < length xs" and "xs ! i \<in> set (take m xs)"
  then obtain j where j: "j < length (take m xs)" "take m xs ! j = xs ! i"
    by (auto simp: in_set_conv_nth)
  then have "j < m" "j < length xs" "xs ! j = xs ! i" by simp_all
  with d i have "j = i" by (simp add: nth_eq_iff_index_eq)
  with \<open>j < m\<close> show "i < m" by simp
next
  assume "distinct xs" and i: "i < length xs" and "i < m"
  then have "i < length (take m xs)" "take m xs ! i = xs ! i" by simp_all
  then show "xs ! i \<in> set (take m xs)" by (metis nth_mem)
qed

lemma terminated_handle_simps [simp]:
  "WORKER_ID (terminated_handle k w) = WORKER_ID w"
  "exit_listeners (terminated_handle k w) = [Terminated k]"
  "sent (terminated_handle k w) = sent w @ [exit_envelope k]"
  "DEATH_TIME (terminated_handle k w) = DEATH_TIME w"
  by (simp_all add: terminated_handle_def)

text \<open>
  C3, as the code has it. A forced \<^verbatim>\<open>spinDown(n, true)\<close> with \<open>n\<close> between 0 and
  the number of registered workers lowers \<open>target_workers\<close> by \<open>n\<close> and goes through
  the graceful protocol for the first \<open>n\<close> workers of the registry: each loses its
  restart listener, is sent one EXIT system call and gets the listener that waits for
  its exit notification. No process is killed and the registry is untouched, so the
  running count is unchanged when the call returns. Once the exit notifications of
  exactly those \<open>n\<close> workers have been handled, in any order, the registry holds the
  other workers and the running count is \<open>n\<close> less.
\<close>

theorem spinDown_force_graceful:
  assumes "wf_cluster s" and "0 \<le> n" and "n \<le> int (running_workers s)"
  shows "\<exists>s'. spinDown s n True = Inr s'
      \<and> target_workers s' = target_workers s - n
      \<and> workers s' = workers s
      \<and> running_workers s' = running_workers s
      \<and> (\<forall>i < length (workers s).
            heap s' ! snd (workers s ! i)
              = (if i < nat n
                 then terminated_handle (fst (workers s ! i)) (heap s ! snd (workers s ! i))
                 else heap s ! snd (workers s ! i)))
      \<and> (\<forall>ora es. fst ` set es = snd ` set (take (nat n) (workers s)) \<longrightarrow>
            workers (exits ora es s') = drop (nat n) (workers s)
            \<and> int (running_workers (exits ora es s')) = int (running_workers s) - n)"
proof -
  let ?m = "nat n"
  let ?s1 = "s\<lparr>target_workers := target_workers s - n\<rparr>"
  let ?ks = "take ?m (map fst (workers s))"
  from assms(3) have m: "?m \<le> length (workers s)" by (simp add: running_workers_def keys_def)
  have sd: "spinDown s n True = terminate_each ?ks ?s1"
    using m by (simp add: spinDown_def Let_def keys_past_the_end keys_def)
  from assms(1) have wf1: "wf_cluster ?s1" by (simp add: wf_cluster_def)
  from assms(1) have dk: "distinct (map fst (workers s))" by (simp add: wf_cluster_def)
  have sub: "set ?ks \<subseteq> fst ` set (workers ?s1)"
    using set_take_subset [of ?m "map fst (workers s)"] by simp
  then obtain s' where s': "terminate_each ?ks ?s1 = Inr s'"
    using terminate_each_registered by blast
  from terminate_each_frame [of ?ks ?s1] s'
  have fr: "workers s' = workers s" "target_workers s' = target_workers s - n"
    "length (heap s') = length (heap s)" by simp_all
  from dk have "distinct ?ks" by simp
  from terminate_each_heap [OF wf1 this sub s']
  have hp: "heap s' ! b = (if k \<in> set ?ks then terminated_handle k (heap s ! b) else heap s ! b)"
    if "(k, b) \<in> set (workers s)" for k b
    using that by auto
  have reg: "b < length (heap s) \<and> WORKER_ID (heap s ! b) = k" if "(k, b) \<in> set (workers s)" for k b
    using that assms(1) by (auto simp: wf_cluster_def)
  have handles: "heap s' ! snd (workers s ! i)
      = (if i < ?m then terminated_handle (fst (workers s ! i)) (heap s ! snd (workers s ! i))
         else heap s ! snd (workers s ! i))"
    if i: "i < length (workers s)" for i
  proof -
    from i have "(fst (workers s ! i), snd (workers s ! i)) \<in> set (workers s)" by simp
    from hp [OF this] have "heap s' ! snd (workers s ! i)
        = (if fst (workers s ! i) \<in> set ?ks
           then terminated_handle (fst (workers s ! i)) (heap s ! snd (workers s ! i))
           else heap s ! snd (workers s ! i))" .
    moreover from i dk have "fst (workers s ! i) \<in> set ?ks \<longleftrightarrow> i < ?m"
      using nth_in_take [of "map fst (workers s)" i ?m] by simp
    ultimately show ?thesis by (simp only:)
  qed
  have after: "workers (exits ora es s') = drop ?m (workers s)
      \<and> int (running_workers (exits ora es s')) = int (running_workers s) - n"
    if es: "fst ` set es = snd ` set (take ?m (workers s))" for ora es
  proof -
    have first: "k \<in> set ?ks \<and> (k, b) \<in> set (workers s)"
      if "(k, b) \<in> set (take ?m (workers s))" for k b
    proof -
      from that have "fst (k, b) \<in> fst ` set (take ?m (workers s))" by (rule imageI)
      then have "k \<in> set ?ks" by (simp add: take_map)
      with that show ?thesis by (meson in_set_takeD)
    qed
    have tmd: "b < length (heap s') \<and> exit_listeners (heap s' ! b) = [Terminated k]
        \<and> WORKER_ID (heap s' ! b) = k"
      if "(k, b) \<in> set (take ?m (workers s))" for k b
      using first [OF that] hp [of k b] reg [of k b] by (simp add: fr)
    have pre: "\<forall>e \<in> set es. fst e < length (heap s')
        \<and> exit_listeners (heap s' ! fst e) = [Terminated (WORKER_ID (heap s' ! fst e))]"
    proof
      fix e
      assume "e \<in> set es"
      then have "fst e \<in> snd ` set (take ?m (workers s))" using es by blast
      then obtain k where "(k, fst e) \<in> set (take ?m (workers s))" by auto
      from tmd [OF this]
      show "fst e < length (heap s')
        \<and> exit_listeners (heap s' ! fst e) = [Terminated (WORKER_ID (heap s' ! fst e))]"
        by simp
    qed
    have ids: "(\<lambda>e. WORKER_ID (heap s' ! fst e)) ` set es = set ?ks"
    proof (intro equalityI subsetI)
      fix k
      assume "k \<in> (\<lambda>e. WORKER_ID (heap s' ! fst e)) ` set es"
      then obtain e where e: "e \<in> set es" "k = WORKER_ID (heap s' ! fst e)" by auto
      then have "fst e \<in> snd ` set (take ?m (workers s))" using es by blast
      then obtain k' where k': "(k', fst e) \<in> set (take ?m (workers s))" by auto
      from tmd [OF k'] first [OF k'] e show "k \<in> set ?ks" by simp
    next
      fix k
      assume "k \<in> set ?ks"
      then have "k \<in> fst ` set (take ?m (workers s))" by (simp add: take_map)
      then obtain b where b: "(k, b) \<in> set (take ?m (workers s))" by auto
      then have "b \<in> snd ` set (take ?m (workers s))" by force
      with es obtain e where e: "e \<in> set es" "fst e = b" by (metis imageE)
      from tmd [OF b] e show "k \<in> (\<lambda>e. WORKER_ID (heap s' ! fst e)) ` set es" by force
    qed
    from exits_of_terminated [OF pre, of ora]
    have "workers (exits ora es s') = filter (\<lambda>p. fst p \<notin> set ?ks) (workers s)"
      by (simp add: ids fr)
    with dk have w: "workers (exits ora es s') = drop ?m (workers s)"
      by (simp add: filter_first_keys)
    with m assms(2) show ?thesis by (simp add: running_workers_def keys_def)
  qed
  have rw: "running_workers s' = running_workers s"
    by (simp add: running_workers_def keys_def fr)
  from sd s' have r: "spinDown s n True = Inr s'" by simp
  from handles have h: "\<forall>i < length (workers s).
      heap s' ! snd (workers s ! i)
        = (if i < nat n
           then terminated_handle (fst (workers s ! i)) (heap s ! snd (workers s ! i))
           else heap s ! snd (workers s ! i))" by blast
  from after have a: "\<forall>ora es. fst ` set es = snd ` set (take (nat n) (workers s)) \<longrightarrow>
      workers (exits ora es s') = drop (nat n) (workers s)
      \<and> int (running_workers (exits ora es s')) = int (running_workers s) - n" by blast
  from r fr(2) fr(1) rw h a show ?thesis by blast
qed

lemma example_identities:
  "gen_WORKER_ID (example_oracle 1700000000000 (Suc 0)) = ''6553f10107070707abababab''"
  "gen_WORKER_ID (example_oracle 1700000000000 (Suc (Suc 0))) = ''6553f10207070707abababab''"
  "gen_WORKER_ID (example_oracle 1700000000000 (Suc (Suc (Suc 0)))) = ''6553f10307070707abababab''"
  "gen_WORKER_ID (example_oracle 1700000000000 (Suc (Suc (Suc (Suc 0)))))
     = ''6553f10407070707abababab''"
  by (simp_all add: hex_eval)

lemma example_pool5_workers:
  "workers (example_pool 5) =
     [(''6553f10007070707abababab'', 0), (''6553f10107070707abababab'', 1),
      (''6553f10207070707abababab'', 2), (''6553f10307070707abababab'', 3),
      (''6553f10407070707abababab'', 4)]"
  by (simp add: example_pool_def example_clock_def start_def new_cluster_def default_restart_def
      eval_nat_numeral spawnWorker_def Let_def example_identity example_identities)


lemma example_pool5_first:
  "sent (heap (example_pool 5) ! 0) = []"
  "target_workers (example_pool 5) = 5"
  by (simp_all add: example_pool_def example_clock_def start_def new_cluster_def default_restart_def
      eval_nat_numeral spawnWorker_def Let_def nth_append)

lemma example_pool5_running: "running_workers (example_pool 5) = 5"
  by (simp add: running_workers_def keys_def example_pool5_workers)

theorem spinDown_force_graceful_witness:
  "wf_cluster (example_pool 5) \<and> (0::int) \<le> 2 \<and> 2 \<le> int (running_workers (example_pool 5))
   \<and> \<not> isl (spinDown (example_pool 5) 2 True)
   \<and> target_workers (state_of (spinDown (example_pool 5) 2 True)) = 3
   \<and> running_workers (state_of (spinDown (example_pool 5) 2 True)) = 5
   \<and> fst ` set [(1, Some 0, None, example_clock + 900), (0, Some 0, None, example_clock + 950)]
       = snd ` set (take (nat 2) (workers (example_pool 5)))
   \<and> int (running_workers (exits (example_oracle example_clock)
         [(1, Some 0, None, example_clock + 900), (0, Some 0, None, example_clock + 950)]
         (state_of (spinDown (example_pool 5) 2 True)))) = 3"
proof -
  let ?es = "[(1::nat, Some (0::int), None :: string option, example_clock + 900),
              (0, Some 0, None, example_clock + 950)]"
  have a: "(0::int) \<le> 2" by simp
  have b: "2 \<le> int (running_workers (example_pool 5))" by (simp add: example_pool5_running)
  have e: "fst ` set ?es = snd ` set (take (nat 2) (workers (example_pool 5)))"
    by (auto simp: example_pool5_workers eval_nat_numeral)
  from spinDown_force_graceful [OF wf_example_pool a b]
  obtain s' where s': "spinDown (example_pool 5) 2 True = Inr s'"
    and t: "target_workers s' = target_workers (example_pool 5) - 2"
    and r: "running_workers s' = running_workers (example_pool 5)"
    and x: "\<forall>ora es. fst ` set es = snd ` set (take (nat 2) (workers (example_pool 5))) \<longrightarrow>
      workers (exits ora es s') = drop (nat 2) (workers (example_pool 5))
      \<and> int (running_workers (exits ora es s')) = int (running_workers (example_pool 5)) - 2"
    by blast
  from x e have "int (running_workers (exits (example_oracle example_clock) ?es s'))
      = int (running_workers (example_pool 5)) - 2" by blast
  with s' t r a b e wf_example_pool [of 5] show ?thesis
    by (simp add: example_pool5_running example_pool5_first)
qed

text \<open>
  The claim as written fails on the pool of five of the spec: after
  \<^verbatim>\<open>spinDown(2, true)\<close> has returned, five workers are still registered, and the
  first one has been sent the EXIT system call and waits for its exit notification.
\<close>

theorem spinDown_force_graceful_counterexample:
  "running_workers (example_pool 5) = 5
   \<and> running_workers (state_of (spinDown (example_pool 5) 2 True)) = 5
   \<and> sent (heap (state_of (spinDown (example_pool 5) 2 True)) ! 0)
       = [exit_envelope ''6553f10007070707abababab'']
   \<and> m_system (exit_envelope ''6553f10007070707abababab'') = Some EXIT
   \<and> exit_listeners (heap (state_of (spinDown (example_pool 5) 2 True)) ! 0)
       = [Terminated ''6553f10007070707abababab'']"
proof -
  let ?s1 = "(example_pool 5)\<lparr>target_workers := target_workers (example_pool 5) - 2\<rparr>"
  let ?k0 = "''6553f10007070707abababab''"
  let ?k1 = "''6553f10107070707abababab''"
  let ?s2 = "?s1\<lparr>heap := (heap ?s1)[0 := terminated_handle ?k0 (heap ?s1 ! 0)]\<rparr>"
  let ?s3 = "?s2\<lparr>heap := (heap ?s2)[1 := terminated_handle ?k1 (heap ?s2 ! 1)]\<rparr>"
  have l: "length (heap (example_pool 5)) = 5"
    by (simp add: example_pool_def start_def new_cluster_def eval_nat_numeral spawnWorker_def Let_def)
  have "map (key_at (keys ?s1)) [0..<nat 2] = [?k0, ?k1]"
    by (simp add: key_at_def keys_def example_pool5_workers eval_nat_numeral)
  then have sd: "spinDown (example_pool 5) 2 True = terminate_each [?k0, ?k1] ?s1"
    by (simp add: spinDown_def Let_def)
  have t0: "terminateWorker ?s1 ?k0 = Inr ?s2"
    by (rule terminateWorker_heap) (simp add: example_pool5_workers)
  have t1: "terminateWorker ?s2 ?k1 = Inr ?s3"
    by (rule terminateWorker_heap) (simp add: example_pool5_workers)
  have r: "spinDown (example_pool 5) 2 True = Inr ?s3"
    by (simp only: sd terminate_each.simps t0 t1 sum.case)
  have h: "heap ?s3 ! 0 = terminated_handle ?k0 (heap (example_pool 5) ! 0)"
    using l by simp
  have w: "workers ?s3 = workers (example_pool 5)" by simp
  have st: "state_of (spinDown (example_pool 5) 2 True) = ?s3" by (simp only: r state_of_simps)
  have c2: "running_workers (state_of (spinDown (example_pool 5) 2 True)) = 5"
    by (simp only: st running_workers_def keys_def w) (simp add: example_pool5_workers)
  have c3: "sent (heap (state_of (spinDown (example_pool 5) 2 True)) ! 0) = [exit_envelope ?k0]"
    by (simp only: st h) (simp add: example_pool5_first)
  have c4: "m_system (exit_envelope ?k0) = Some EXIT" by (simp add: exit_envelope_def)
  have c5: "exit_listeners (heap (state_of (spinDown (example_pool 5) 2 True)) ! 0)
      = [Terminated ?k0]"
    by (simp only: st h) simp
  show ?thesis
    by (rule conjI [OF example_pool5_running conjI [OF c2 conjI [OF c3 conjI [OF c4 c5]]]])
qed

subsection \<open>Spinning up\<close>

lemma spawnWorker_target: "target_workers (snd (spawnWorker ora s)) = target_workers s"
  by (simp add: spawnWorker_def Let_def)

lemma spawn_times_target: "target_workers (spawn_times ora n s) = target_workers s"
  by (induction n arbitrary: s) (simp_all add: spawnWorker_target)

lemma spawn_times_heap: "length (heap (spawn_times ora n s)) = length (heap s) + n"
  by (induction n arbitrary: s) (simp_all add: spawnWorker_heap)

lemma fresh_ids_Suc:
  assumes "fresh_ids ora s (Suc n)"
  shows "gen_WORKER_ID (ora (length (heap s))) \<notin> fst ` set (workers s)"
    and "fresh_ids ora (snd (spawnWorker ora s)) n"
proof -
  define f where "f = (\<lambda>i. gen_WORKER_ID (ora (length (heap s) + i)))"
  define s1 where "s1 = snd (spawnWorker ora s)"
  define g where "g = (\<lambda>i. gen_WORKER_ID (ora (length (heap s1) + i)))"
  from assms have d: "distinct (map f [0..<Suc n])"
    and out: "\<forall>i < Suc n. f i \<notin> set (keys s)"
    by (simp_all add: fresh_ids_def f_def)
  have f0: "f 0 = gen_WORKER_ID (ora (length (heap s)))" by (simp add: f_def)
  from out have new: "f 0 \<notin> set (keys s)" by blast
  then show "gen_WORKER_ID (ora (length (heap s))) \<notin> fst ` set (workers s)"
    by (simp add: keys_def f0)
  from d have "inj_on f (set [0..<Suc n])" by (simp only: distinct_map)
  then have inj: "inj_on f {0..<Suc n}" by (simp only: set_upt)
  have g: "g i = f (Suc i)" for i by (simp add: g_def f_def s1_def spawnWorker_heap)
  have k1: "set (keys s1) = insert (f 0) (set (keys s))"
    using dom_update [of "f 0" "length (heap s)" "workers s"]
    by (simp add: keys_def s1_def spawnWorker_workers f0)
  have "inj_on g {0..<n}"
  proof (rule inj_onI)
    fix i j
    assume "i \<in> {0..<n}" "j \<in> {0..<n}" "g i = g j"
    then have "Suc i \<in> {0..<Suc n}" "Suc j \<in> {0..<Suc n}" "f (Suc i) = f (Suc j)"
      by (simp_all add: g)
    with inj have "Suc i = Suc j" by (metis inj_onD)
    then show "i = j" by simp
  qed
  then have d1: "distinct (map g [0..<n])" by (simp add: distinct_map)
  have "\<forall>i < n. g i \<notin> set (keys s1)"
  proof (intro allI impI)
    fix i
    assume i: "i < n"
    with out have "f (Suc i) \<notin> set (keys s)" by simp
    moreover have "f (Suc i) \<noteq> f 0"
    proof
      assume "f (Suc i) = f 0"
      moreover from i have "Suc i \<in> {0..<Suc n}" "0 \<in> {0..<Suc n}" by simp_all
      ultimately have "Suc i = 0" using inj by (metis inj_onD)
      then show False by simp
    qed
    ultimately show "g i \<notin> set (keys s1)" by (simp add: g k1)
  qed
  with d1 have "fresh_ids ora s1 n" by (simp add: fresh_ids_def g_def)
  then show "fresh_ids ora (snd (spawnWorker ora s)) n" by (simp add: s1_def)
qed

lemma length_update_new:
  "k \<notin> fst ` set al \<Longrightarrow> length (AList.update k v al) = Suc (length al)"
  by (induction al) auto

lemma spawn_times_running:
  "fresh_ids ora s n \<Longrightarrow> running_workers (spawn_times ora n s) = running_workers s + n"
proof (induction n arbitrary: s)
  case 0
  show ?case by simp
next
  case (Suc n)
  note f = fresh_ids_Suc [OF Suc.prems]
  from f(1) have "running_workers (snd (spawnWorker ora s)) = Suc (running_workers s)"
    by (simp add: running_workers_def keys_def spawnWorker_workers length_update_new)
  with Suc.IH [OF f(2)] show ?case by simp
qed

lemma fresh_ids_target: "fresh_ids ora (s\<lparr>target_workers := t\<rparr>) n = fresh_ids ora s n"
  by (simp add: fresh_ids_def keys_def)

text \<open>
  C4. An inbound message of a worker with type \<^verbatim>\<open>null\<close> and call SPIN_UP with
  the count \<open>c\<close> does exactly what \<^verbatim>\<open>spinUp(c)\<close> does: \<open>target_workers\<close> grows
  by \<open>c\<close>, and for a count \<open>c \<ge> 0\<close> the algorithm spawns \<open>c\<close> processes. The
  running count grows by \<open>c\<close> too, as long as the identities generated for them are
  new and differ from each other, which the random part makes overwhelmingly likely.
\<close>

theorem worker_spin_up:
  assumes "m_type msg = TypeNull" and "m_call msg = Some SPIN_UP" and "m_count msg = c"
  shows "onMessage ora s a msg = Inr (spinUp ora s c)
    \<and> target_workers (spinUp ora s c) = target_workers s + c
    \<and> (0 \<le> c \<longrightarrow> int (length (heap (spinUp ora s c))) = int (length (heap s)) + c)
    \<and> (0 \<le> c \<and> fresh_ids ora s (nat c) \<longrightarrow>
          int (running_workers (spinUp ora s c)) = int (running_workers s) + c)"
proof -
  let ?s1 = "s\<lparr>target_workers := target_workers s + c\<rparr>"
  have "onMessage ora s a msg = Inr (spinUp ora s c)"
    using assms by (simp add: onMessage_def onSystemMessage_def)
  moreover have "target_workers (spinUp ora s c) = target_workers s + c"
    by (simp add: spinUp_def spawn_times_target)
  moreover have "int (length (heap (spinUp ora s c))) = int (length (heap s)) + c" if "0 \<le> c"
    using that by (simp add: spinUp_def spawn_times_heap)
  moreover have "int (running_workers (spinUp ora s c)) = int (running_workers s) + c"
    if "0 \<le> c" "fresh_ids ora s (nat c)"
  proof -
    from that(2) have "fresh_ids ora ?s1 (nat c)" by (simp add: fresh_ids_target)
    then have "running_workers (spawn_times ora (nat c) ?s1) = running_workers ?s1 + nat c"
      by (rule spawn_times_running)
    with that(1) show ?thesis by (simp add: spinUp_def running_workers_def keys_def)
  qed
  ultimately show ?thesis by blast
qed

lemma example_fresh: "fresh_ids (example_oracle example_clock) (example_pool 1) (nat 2)"
  by (simp add: fresh_ids_def keys_def example_pool1 example_clock_def eval_nat_numeral
      example_identities All_less_Suc)

theorem worker_spin_up_witness:
  "m_type example_spin_up = TypeNull \<and> m_call example_spin_up = Some SPIN_UP
   \<and> m_count example_spin_up = 2
   \<and> (0::int) \<le> 2 \<and> fresh_ids (example_oracle example_clock) (example_pool 1) (nat 2)
   \<and> onMessage (example_oracle example_clock) (example_pool 1) 0 example_spin_up
       = Inr (spinUp (example_oracle example_clock) (example_pool 1) 2)
   \<and> target_workers (spinUp (example_oracle example_clock) (example_pool 1) 2) = 3
   \<and> int (running_workers (spinUp (example_oracle example_clock) (example_pool 1) 2)) = 3"
proof -
  have m: "m_type example_spin_up = TypeNull" "m_call example_spin_up = Some SPIN_UP"
    "m_count example_spin_up = 2"
    by (simp_all add: example_spin_up_def)
  have t: "target_workers (example_pool 1) = 1" by (simp add: example_pool1)
  from worker_spin_up [OF m, of "example_oracle example_clock" "example_pool 1" 0] m example_fresh
  show ?thesis by (simp add: example_pool_running t)
qed

subsection \<open>The target size\<close>

lemma onExit_target: "target_workers (onExit ora s a code signal now) = target_workers s"
  by (simp add: onExit_steps respawn_fields after_death_fields)

lemma run_exit_listeners_target:
  "target_workers (run_exit_listeners ora ls a code signal now s) = target_workers s"
  by (induction ora ls a code signal now s rule: run_exit_listeners.induct)
    (simp_all add: onExit_target onTerminated_fields)

lemma worker_exit_target: "target_workers (worker_exit ora s a code signal now) = target_workers s"
  by (simp add: worker_exit_def run_exit_listeners_target)

lemma spinDown_target: "target_workers (state_of (spinDown s x force)) = target_workers s - x"
  by (simp add: spinDown_def Let_def terminate_each_frame)

lemma spinUp_target: "target_workers (spinUp ora s x) = target_workers s + x"
  by (simp add: spinUp_def spawn_times_target)

lemma onMessage_target:
  "target_workers (state_of (onMessage ora s a msg)) = target_workers s + target_delta (WorkerMessage a msg)"
  by (cases "m_type msg")
    (simp_all add: onMessage_def onSystemMessage_def target_delta_def spinUp_target
      spinDown_target emit_def)

text \<open>
  C9, as the code has it. \<open>target_workers\<close> is an integer. \<^verbatim>\<open>start\<close>,
  \<^verbatim>\<open>stop\<close>, \<^verbatim>\<open>refreshWorkers\<close>, the setters, application messages and exit
  notifications leave it as it is; \<^verbatim>\<open>spinUp(n)\<close> and a worker's SPIN_UP raise it
  by the count, \<^verbatim>\<open>spinDown(n)\<close> and a worker's SPIN_DOWN lower it by the count, and
  none of them checks anything. So an operation keeps it non-negative exactly when the
  count it subtracts is at most \<open>target_workers\<close>.
\<close>

theorem target_workers_step:
  "target_workers (state_of (step ora s c)) = target_workers s + target_delta c
   \<and> (0 \<le> target_workers (state_of (step ora s c)) \<longleftrightarrow> - target_delta c \<le> target_workers s)
   \<and> target_workers (run ora s cs) = target_workers s + sum_list (map target_delta cs)"
proof -
  have one: "target_workers (state_of (step ora s c)) = target_workers s + target_delta c" for s c
    by (cases c)
      (simp_all add: target_delta_def start_def spawn_times_target stop_def terminate_each_frame
        spinUp_target spinDown_target refreshWorkers_def Let_def worker_exit_target
        onMessage_target [unfolded target_delta_def, simplified])
  have "target_workers (run ora s cs) = target_workers s + sum_list (map target_delta cs)"
    by (induction cs arbitrary: s) (simp_all add: one)
  with one [of s c] show ?thesis by auto
qed

text \<open>
  The claim as written fails: nothing stops the owner, or a worker through SPIN_DOWN, from
  spinning down more workers than the target.
\<close>

theorem target_workers_step_counterexample:
  "0 \<le> target_workers (example_pool 1)
   \<and> target_workers (state_of (step (example_oracle example_clock) (example_pool 1)
        (SpinDown 2 False))) = - 1"
  by (simp add: spinDown_def Let_def example_pool1)

subsection \<open>The promise of stop\<close>

lemma stop_returns: "\<exists>s'. stop s = Inr s' \<and> workers s' = workers s"
proof -
  have "set (keys s) \<subseteq> fst ` set (workers s)" by (simp add: keys_def)
  then obtain s' where "terminate_each (keys s) s = Inr s'"
    using terminate_each_registered by blast
  with terminate_each_frame [of "keys s" s] show ?thesis by (simp add: stop_def)
qed

lemma event_loop_no_tick:
  "\<not> tick_pending st \<Longrightarrow> resolve_calls (event_loop ora evs st) = resolve_calls st"
  by (induction ora evs st rule: event_loop.induct) simp_all

text \<open>
  The callback of \<^verbatim>\<open>process.nextTick\<close> runs before any exit notification can be
  delivered. With a worker registered it finds the registry non-empty and returns, and
  nothing calls \<^verbatim>\<open>resolve\<close> later: the promise of \<^verbatim>\<open>stop()\<close> stays pending
  whatever exits follow. Only an empty pool resolves it.
\<close>

lemma stop_promise_pending:
  "workers s \<noteq> [] \<Longrightarrow> resolve_calls (stop_then ora s (NextTick # evs)) = 0"
proof -
  assume w: "workers s \<noteq> []"
  obtain s' where s': "stop s = Inr s'" "workers s' = workers s" using stop_returns by blast
  let ?st = "\<lparr>sup = s', tick_pending = False, resolve_calls = 0\<rparr>"
  from w s' have "\<not> stop_tick s'" by (simp add: stop_tick_def keys_def)
  then have "stop_then ora s (NextTick # evs) = event_loop ora evs ?st"
    by (simp add: stop_then_def s')
  then show ?thesis by (simp add: event_loop_no_tick)
qed

lemma stop_promise_empty_pool:
  "workers s = [] \<Longrightarrow> resolve_calls (stop_then ora s (NextTick # evs)) = 1"
proof -
  assume w: "workers s = []"
  then have "stop s = Inr s" by (simp add: stop_def keys_def)
  moreover from w have "stop_tick s" by (simp add: stop_tick_def keys_def)
  ultimately have "stop_then ora s (NextTick # evs)
      = event_loop ora evs \<lparr>sup = s, tick_pending = False, resolve_calls = 1\<rparr>"
    by (simp add: stop_then_def)
  then show ?thesis by (simp add: event_loop_no_tick)
qed

text \<open>
  C2 on the smallest pool: one worker, \<^verbatim>\<open>stop()\<close>, the tick, then the worker's
  exit notification with code 0. The notification is handled and the registry is empty,
  the tick has run, and \<^verbatim>\<open>resolve\<close> has not been called.
\<close>

theorem stop_promise_never_resolves:
  "running_workers (example_pool 1) = 1
   \<and> workers (sup (stop_then (example_oracle example_clock) (example_pool 1)
        [NextTick, ExitNotification 0 (Some 0) None (example_clock + 1000)])) = []
   \<and> tick_pending (stop_then (example_oracle example_clock) (example_pool 1)
        [NextTick, ExitNotification 0 (Some 0) None (example_clock + 1000)]) = False
   \<and> resolve_calls (stop_then (example_oracle example_clock) (example_pool 1)
        [NextTick, ExitNotification 0 (Some 0) None (example_clock + 1000)]) = 0"
proof -
  let ?ora = "example_oracle example_clock"
  let ?evs = "[NextTick, ExitNotification 0 (Some 0) None (example_clock + 1000)]"
  obtain s' where "stop (example_pool 1) = Inr s'" using stop_returns by blast
  then have st: "stop (example_pool 1) = Inr example_stopped"
    by (simp add: example_stopped_def)
  have tick: "\<not> stop_tick example_stopped"
    by (simp add: stop_tick_def keys_def example_stopped_fields)
  have ex: "worker_exit ?ora example_stopped 0 (Some 0) None (example_clock + 1000)
      = onTerminated example_stopped 0 ''6553f10007070707abababab'' (Some 0) None"
    by (rule worker_exit_terminated) (simp_all add: example_stopped_fields)
  have run: "stop_then ?ora (example_pool 1) ?evs
      = \<lparr>sup = onTerminated example_stopped 0 ''6553f10007070707abababab'' (Some 0) None,
         tick_pending = False, resolve_calls = 0\<rparr>"
    by (simp add: stop_then_def st tick ex)
  show ?thesis
    by (simp add: run onTerminated_fields example_stopped_fields example_pool_running)
qed

subsection \<open>One agent per process\<close>

lemma state_after_simps [simp]:
  "state_after (Returned p) = p" "state_after (Thrown err p) = p"
  by (simp_all add: state_after_def)

lemma same_frame_refl: "same_frame p p"
  by (simp add: same_frame_def)

lemma same_frame_trans: "same_frame p q \<Longrightarrow> same_frame q r \<Longrightarrow> same_frame p r"
  by (simp add: same_frame_def)

lemma run_agent_listeners_frame:
  "same_frame p (state_after (run_agent_listeners ls this opts args p))"
proof (induction ls this opts args p rule: run_agent_listeners.induct)
  case (1 this opts args p)
  show ?case by (simp add: same_frame_refl)
next
  case (2 f ls this opts args p)
  then show ?case by (simp add: same_frame_def)
next
  case (3 f err ls this opts args p)
  show ?case by (simp add: same_frame_def)
next
  case (4 f ls this opts args p)
  then show ?case by (simp add: same_frame_def)
next
  case (5 f err ls this opts args p)
  show ?case by (simp add: same_frame_def)
next
  case (6 ls this opts args p)
  show ?case by (simp add: same_frame_def)
qed

lemma agent_onExit_frame: "same_frame p (state_after (agent_onExit this opts ex args p))"
proof -
  let ?p1 = "if ex then p\<lparr>instances := (instances p)[this := instances p ! this @ [ExitProcess]]\<rparr> else p"
  have "same_frame p ?p1" by (simp add: same_frame_def)
  moreover have "same_frame ?p1 (state_after (emit_exit this opts args ?p1))"
    unfolding emit_exit_def by (rule run_agent_listeners_frame)
  ultimately show ?thesis
    unfolding agent_onExit_def Let_def by (rule same_frame_trans)
qed

lemma observed_frame: "same_frame p (p\<lparr>observed := obs\<rparr>)"
  by (simp add: same_frame_def)

lemma agent_onMessage_frame: "same_frame p (state_after (agent_onMessage this msg p))"
  by (cases "m_type msg")
    (simp_all add: agent_onMessage_def agent_onSystemMessage_def agent_onExit_frame
      same_frame_refl observed_frame)

lemma call_handler_frame: "same_frame p (state_after (call_handler h ev p))"
  by (cases h; cases ev)
    (simp_all add: call_handler_def agent_onMessage_frame agent_onExit_frame same_frame_refl)

lemma call_handlers_frame: "same_frame p (state_after (call_handlers hs ev p))"
proof (induction hs arbitrary: p)
  case Nil
  show ?case by (simp add: same_frame_refl)
next
  case (Cons h hs)
  show ?case
  proof (cases "call_handler h ev p")
    case (Returned p')
    with call_handler_frame [of p h ev] have "same_frame p p'" by simp
    from same_frame_trans [OF this Cons.IH] Returned show ?thesis
      by (simp add: same_frame_refl)
  next
    case (Thrown err p')
    with call_handler_frame [of p h ev] show ?thesis by (simp add: same_frame_refl)
  qed
qed

lemma process_emit_frame: "same_frame p (state_after (process_emit ev p))"
  unfolding process_emit_def by (rule call_handlers_frame)

lemma deliver_frame: "same_frame p (deliver ev p)"
proof (cases "process_emit ev p")
  case (Returned p')
  with process_emit_frame [of p ev] show ?thesis by (simp add: deliver_def)
next
  case (Thrown err p')
  with process_emit_frame [of p ev] have a: "same_frame p p'" by simp
  have b: "same_frame p'
      (state_after (process_emit (PUncaughtExceptionMonitor err ''uncaughtException'') p'))"
    by (rule process_emit_frame)
  from a same_frame_trans [OF a b] Thrown show ?thesis
    by (cases ev) (simp_all add: deliver_def)
qed

lemma deliver_no_handlers: "handlers p = [] \<Longrightarrow> deliver ev p = p"
  by (simp add: deliver_def process_emit_def)

lemma wrun_snoc: "wrun p (cs @ [c]) = wstep (wrun p cs) c"
  by (simp add: wrun_def)

lemma wstep_single_inv:
  assumes "single_inv cs p"
  shows "single_inv (cs @ [c]) (wstep p c)"
proof (cases "exit_code p = None")
  case False
  with assms have "has_been_created p" by (auto simp: single_inv_def)
  with assms False show ?thesis by (auto simp: single_inv_def wstep_def)
next
  case True
  show ?thesis
  proof (cases c)
    case Construct
    with assms True show ?thesis
      by (auto simp: single_inv_def wstep_def new_Worker_def Let_def)
  next
    case (AddOn this f b)
    with assms True show ?thesis by (auto simp: single_inv_def wstep_def)
  next
    case (AddOnce this f b)
    with assms True show ?thesis by (auto simp: single_inv_def wstep_def)
  next
    case (Deliver ev)
    show ?thesis
    proof (cases "has_been_created p")
      case False
      with assms have "deliver ev p = p" by (simp add: single_inv_def deliver_no_handlers)
      with assms True Deliver show ?thesis by (auto simp: single_inv_def wstep_def)
    next
      case created: True
      have "same_frame p (deliver ev p)" by (rule deliver_frame)
      with assms True Deliver created show ?thesis
        by (auto simp: single_inv_def wstep_def same_frame_def)
    qed
  qed
qed

lemma wrun_single_inv: "single_inv cs (wrun fresh_process cs)"
proof (induction cs rule: rev_induct)
  case Nil
  show ?case by (simp add: single_inv_def wrun_def fresh_process_def)
next
  case (snoc c cs)
  then show ?case by (simp only: wrun_snoc wstep_single_inv)
qed

text \<open>
  C7. In a worker process, whatever happens in it: there is never more than one instance;
  as long as no construction was attempted there is none and \<^verbatim>\<open>new Worker()\<close>
  succeeds, leaving one; once a construction was attempted there is exactly one, and
  every further \<^verbatim>\<open>new Worker()\<close> throws at once and changes nothing.
\<close>

theorem single_instance:
  "length (instances (wrun fresh_process cs)) \<le> 1
   \<and> (Construct \<notin> set cs \<longrightarrow>
        instances (wrun fresh_process cs) = []
        \<and> (\<exists>p'. new_Worker (wrun fresh_process cs) = Inr p' \<and> length (instances p') = 1))
   \<and> (Construct \<in> set cs \<longrightarrow>
        length (instances (wrun fresh_process cs)) = 1
        \<and> new_Worker (wrun fresh_process cs) = Inl already_created
        \<and> wrun fresh_process (cs @ [Construct]) = wrun fresh_process cs)"
proof -
  let ?p = "wrun fresh_process cs"
  have inv: "single_inv cs ?p" by (rule wrun_single_inv)
  have a: "length (instances ?p) \<le> 1" using inv by (simp add: single_inv_def)
  have b: "Construct \<notin> set cs \<longrightarrow> instances ?p = []
        \<and> (\<exists>p'. new_Worker ?p = Inr p' \<and> length (instances p') = 1)"
    using inv by (auto simp: single_inv_def new_Worker_def Let_def)
  have c: "Construct \<in> set cs \<longrightarrow> length (instances ?p) = 1
        \<and> new_Worker ?p = Inl already_created
        \<and> wrun fresh_process (cs @ [Construct]) = ?p"
    using inv by (auto simp: single_inv_def new_Worker_def wrun_snoc wstep_def)
  from a b c show ?thesis by blast
qed

theorem single_instance_witness:
  "Construct \<notin> set []
   \<and> instances (wrun fresh_process []) = []
   \<and> Construct \<in> set [Construct, AddOn 0 7 Returns, Construct]
   \<and> length (instances (wrun fresh_process [Construct, AddOn 0 7 Returns, Construct])) = 1
   \<and> new_Worker (wrun fresh_process [Construct, AddOn 0 7 Returns, Construct]) = Inl already_created"
  using single_instance [of "[]"] single_instance [of "[Construct, AddOn 0 7 Returns, Construct]"]
  by simp

subsection \<open>A listener that throws leaves the exit hook behind\<close>

lemma example_throwing_process:
  "wrun fresh_process example_throwing =
     \<lparr>has_been_created = True,
      instances = [[UserOnce 7 (Throws ''boom''), UserOn 8 Returns]],
      handlers = agent_handlers 0, exit_code = None, observed = []\<rparr>"
  by (simp add: example_throwing_def wrun_def wstep_def new_Worker_def fresh_process_def)

lemma call_handlers_single:
  "exit_code p = None \<Longrightarrow> call_handlers [h] ev p = call_handler h ev p"
  by (cases "call_handler h ev p") simp_all

lemma handlers_for_message:
  "map snd (filter (\<lambda>(n, h). n = ''message'') (agent_handlers this)) = [HandleMessage this]"
  by (simp add: agent_handlers_def CATCH_SIGNALS_def)

lemma handlers_for_disconnect:
  "map snd (filter (\<lambda>(n, h). n = ''disconnect'') (agent_handlers this))
     = [HandleExit this Disconnected True]"
  by (simp add: agent_handlers_def CATCH_SIGNALS_def)

lemma handlers_for_uncaught:
  "map snd (filter (\<lambda>(n, h). n = ''uncaughtExceptionMonitor'') (agent_handlers this))
     = [HandleExit this Errored False]"
  by (simp add: agent_handlers_def CATCH_SIGNALS_def)

lemma handlers_for_signal:
  "sig \<in> set CATCH_SIGNALS \<Longrightarrow>
     map snd (filter (\<lambda>(n, h). n = ''SIG'' @ sig) (agent_handlers this))
       = [HandleExit this (Signalled (''SIG'' @ sig)) True]"
  by (auto simp: agent_handlers_def CATCH_SIGNALS_def)

lemma process_emit_single:
  assumes "exit_code p = None"
    and "map snd (filter (\<lambda>(n, h). n = event_name ev) (handlers p)) = [h]"
  shows "process_emit ev p = call_handler h ev p"
  using call_handlers_single [OF assms(1), of h ev] by (simp only: process_emit_def assms(2))

lemma process_emit_message:
  assumes "handlers p = agent_handlers 0" "exit_code p = None"
  shows "process_emit (PMessage msg) p = agent_onMessage 0 msg p"
proof -
  have "process_emit (PMessage msg) p = call_handler (HandleMessage 0) (PMessage msg) p"
    using assms(2) by (rule process_emit_single)
      (simp add: assms(1) event_name_def handlers_for_message)
  then show ?thesis by (simp add: call_handler_def)
qed

lemma process_emit_monitor:
  assumes "handlers p = agent_handlers 0" "exit_code p = None"
  shows "process_emit (PUncaughtExceptionMonitor err origin) p
       = agent_onExit 0 Errored False [AStr err, AStr origin] p"
proof -
  have "process_emit (PUncaughtExceptionMonitor err origin) p
      = call_handler (HandleExit 0 Errored False) (PUncaughtExceptionMonitor err origin) p"
    using assms(2) by (rule process_emit_single)
      (simp add: assms(1) event_name_def handlers_for_uncaught)
  then show ?thesis by (simp add: call_handler_def event_args_def)
qed

lemma process_emit_disconnect:
  assumes "handlers p = agent_handlers 0" "exit_code p = None"
  shows "process_emit PDisconnect p = agent_onExit 0 Disconnected True [] p"
proof -
  have "process_emit PDisconnect p = call_handler (HandleExit 0 Disconnected True) PDisconnect p"
    using assms(2) by (rule process_emit_single)
      (simp add: assms(1) event_name_def handlers_for_disconnect)
  then show ?thesis by (simp add: call_handler_def event_args_def)
qed

lemma process_emit_signal:
  assumes "handlers p = agent_handlers 0" "exit_code p = None" "sig \<in> set CATCH_SIGNALS"
  shows "process_emit (PSignal (''SIG'' @ sig) k) p
       = agent_onExit 0 (Signalled (''SIG'' @ sig)) True [AStr (''SIG'' @ sig), ANum k] p"
proof -
  have "process_emit (PSignal (''SIG'' @ sig) k) p
      = call_handler (HandleExit 0 (Signalled (''SIG'' @ sig)) True) (PSignal (''SIG'' @ sig) k) p"
    using assms(2) by (rule process_emit_single)
      (use handlers_for_signal [OF assms(3), of 0] in \<open>simp add: assms(1) event_name_def\<close>)
  then show ?thesis by (simp add: call_handler_def event_args_def)
qed

text \<open>
  C6. The notifications of the agent, at a listener that throws. A worker process with its agent and two listeners of the
  application: the first, registered with \<^verbatim>\<open>once\<close>, throws; the second returns.
  The EXIT call arrives. \<^verbatim>\<open>#onExit\<close> registers the hook and emits; the first
  listener is called and throws, so the second is never told of the request and the hook
  stays registered in a process that lives. The error is uncaught, the platform shows it
  to the monitoring hook, and the passive notification with \<^verbatim>\<open>{error: true}\<close>
  runs the second listener and then the hook that was left behind: the agent calls
  \<^verbatim>\<open>process.exit(0)\<close> on an uncaught error.
\<close>

theorem agent_exit_hook_left_behind:
  "process_emit (PMessage example_exit_call) (wrun fresh_process example_throwing)
     = Thrown ''boom''
        \<lparr>has_been_created = True, instances = [[UserOn 8 Returns, ExitProcess]],
         handlers = agent_handlers 0, exit_code = None,
         observed = [Ran 7 Requested []]\<rparr>
   \<and> process_emit (PUncaughtExceptionMonitor ''boom'' ''uncaughtException'')
        \<lparr>has_been_created = True, instances = [[UserOn 8 Returns, ExitProcess]],
         handlers = agent_handlers 0, exit_code = None,
         observed = [Ran 7 Requested []]\<rparr>
     = Returned
        \<lparr>has_been_created = True, instances = [[UserOn 8 Returns]],
         handlers = agent_handlers 0, exit_code = Some 0,
         observed = [Ran 7 Requested [],
                     Ran 8 Errored [AStr ''boom'', AStr ''uncaughtException''],
                     ProcessExit 0]\<rparr>
   \<and> observed (wstep (wrun fresh_process example_throwing) (Deliver (PMessage example_exit_call)))
     = [Ran 7 Requested [],
        Ran 8 Errored [AStr ''boom'', AStr ''uncaughtException''],
        ProcessExit 0]
   \<and> exit_code (wstep (wrun fresh_process example_throwing) (Deliver (PMessage example_exit_call)))
     = Some 0"
proof -
  let ?p = "wrun fresh_process example_throwing"
  let ?q = "\<lparr>has_been_created = True, instances = [[UserOn 8 Returns, ExitProcess]],
         handlers = agent_handlers 0, exit_code = None,
         observed = [Ran 7 Requested []]\<rparr>"
  let ?r = "\<lparr>has_been_created = True, instances = [[UserOn 8 Returns]],
         handlers = agent_handlers 0, exit_code = Some 0,
         observed = [Ran 7 Requested [],
                     Ran 8 Errored [AStr ''boom'', AStr ''uncaughtException''],
                     ProcessExit 0]\<rparr>"
  have "agent_onMessage 0 example_exit_call ?p = Thrown ''boom'' ?q"
    by (simp add: example_throwing_process agent_onMessage_def agent_onSystemMessage_def
        agent_onExit_def emit_exit_def example_exit_call_def)
  then have a: "process_emit (PMessage example_exit_call) ?p = Thrown ''boom'' ?q"
    by (simp add: process_emit_message example_throwing_process)
  have "agent_onExit 0 Errored False [AStr ''boom'', AStr ''uncaughtException''] ?q = Returned ?r"
    by (simp add: agent_onExit_def emit_exit_def)
  then have b: "process_emit (PUncaughtExceptionMonitor ''boom'' ''uncaughtException'') ?q
      = Returned ?r"
    by (simp add: process_emit_monitor)
  have "exit_code ?p = None" by (simp add: example_throwing_process)
  then have "wstep ?p (Deliver (PMessage example_exit_call)) = ?r"
    by (simp add: wstep_def deliver_def a b)
  then have c: "observed (wstep ?p (Deliver (PMessage example_exit_call)))
      = [Ran 7 Requested [], Ran 8 Errored [AStr ''boom'', AStr ''uncaughtException''],
         ProcessExit 0]"
    and d: "exit_code (wstep ?p (Deliver (PMessage example_exit_call))) = Some 0"
    by simp_all
  show ?thesis by (rule conjI [OF a conjI [OF b conjI [OF c d]]])
qed


subsection \<open>The agent's exit notifications while every listener returns\<close>

lemma run_listeners_returning:
  "\<forall>l \<in> set ls. returning l \<Longrightarrow>
     run_agent_listeners ls this opts args p
       = Returned (state_after (run_agent_listeners ls this opts args p))
     \<and> observed (state_after (run_agent_listeners ls this opts args p))
       = observed p @ map (\<lambda>f. Ran f opts args) (user_tokens ls)
     \<and> exit_code (state_after (run_agent_listeners ls this opts args p)) = exit_code p"
  by (induction ls this opts args p rule: run_agent_listeners.induct)
    (simp_all add: user_tokens_def)

lemma run_listeners_exit:
  "\<forall>l \<in> set ls. returning l \<Longrightarrow>
     run_agent_listeners (ls @ [ExitProcess]) this opts args p
       = Returned (state_after (run_agent_listeners (ls @ [ExitProcess]) this opts args p))
     \<and> observed (state_after (run_agent_listeners (ls @ [ExitProcess]) this opts args p))
       = observed p @ map (\<lambda>f. Ran f opts args) (user_tokens ls) @ [ProcessExit 0]
     \<and> exit_code (state_after (run_agent_listeners (ls @ [ExitProcess]) this opts args p)) = Some 0"
proof (induction ls arbitrary: p)
  case Nil
  show ?case by (simp add: user_tokens_def)
next
  case (Cons l ls)
  show ?case
  proof (cases l)
    case (UserOn f b)
    with Cons show ?thesis by (cases b) (simp_all add: user_tokens_def)
  next
    case (UserOnce f b)
    with Cons show ?thesis by (cases b) (simp_all add: user_tokens_def)
  next
    case ExitProcess
    with Cons.prems show ?thesis by simp
  qed
qed

lemma all_list_update:
  "\<forall>l \<in> set xs. P l \<Longrightarrow> (i < length xs \<Longrightarrow> P x) \<Longrightarrow> \<forall>l \<in> set (xs[i := x]). P l"
proof (cases "i < length xs")
  case True
  assume "\<forall>l \<in> set xs. P l" and "i < length xs \<Longrightarrow> P x"
  with True show ?thesis
    using set_update_subset_insert [of xs i x] by auto
next
  case False
  assume "\<forall>l \<in> set xs. P l"
  with False show ?thesis by (simp add: list_update_beyond)
qed

lemma all_returning_update:
  assumes "all_returning xs" and "i < length xs \<Longrightarrow> \<forall>l \<in> set x. returning l"
  shows "all_returning (xs[i := x])"
  unfolding all_returning_def
  using assms by (intro all_list_update) (simp_all add: all_returning_def)

lemma all_returning_nth:
  "all_returning xs \<Longrightarrow> i < length xs \<Longrightarrow> \<forall>l \<in> set (xs ! i). returning l"
  by (auto simp: all_returning_def dest: nth_mem)

lemma run_listeners_instances:
  "\<forall>l \<in> set ls. returning l \<Longrightarrow> all_returning (instances p) \<Longrightarrow>
     all_returning (instances (state_after (run_agent_listeners ls this opts args p)))"
proof (induction ls this opts args p rule: run_agent_listeners.induct)
  case (1 this opts args p)
  then show ?case by simp
next
  case (2 f ls this opts args p)
  then show ?case by simp
next
  case (3 f err ls this opts args p)
  then show ?case by simp
next
  case (4 f ls this opts args p)
  have "all_returning ((instances p)[this := remove1 (UserOnce f Returns) (instances p ! this)])"
    using "4.prems"(2)
  proof (rule all_returning_update)
    assume "this < length (instances p)"
    with "4.prems"(2) have "\<forall>l \<in> set (instances p ! this). returning l"
      by (simp add: all_returning_nth)
    then show "\<forall>l \<in> set (remove1 (UserOnce f Returns) (instances p ! this)). returning l"
      by (auto dest: notin_set_remove1)
  qed
  with "4.IH" "4.prems"(1) show ?case by simp
next
  case (5 f err ls this opts args p)
  then show ?case by simp
next
  case (6 ls this opts args p)
  then show ?case by simp
qed

lemma agent_onExit_forced:
  assumes "this < length (instances p)" "\<forall>l \<in> set (instances p ! this). returning l"
  shows "agent_onExit this opts True args p
       = Returned (state_after (agent_onExit this opts True args p))
     \<and> observed (state_after (agent_onExit this opts True args p))
       = observed p @ map (\<lambda>f. Ran f opts args) (user_tokens (instances p ! this)) @ [ProcessExit 0]
     \<and> exit_code (state_after (agent_onExit this opts True args p)) = Some 0"
  using assms(1) run_listeners_exit [OF assms(2), of this opts args
      "p\<lparr>instances := (instances p)[this := instances p ! this @ [ExitProcess]]\<rparr>"]
  by (simp add: agent_onExit_def emit_exit_def)

lemma agent_onExit_passive:
  assumes "\<forall>l \<in> set (instances p ! this). returning l"
  shows "agent_onExit this opts False args p
       = Returned (state_after (agent_onExit this opts False args p))
     \<and> observed (state_after (agent_onExit this opts False args p))
       = observed p @ map (\<lambda>f. Ran f opts args) (user_tokens (instances p ! this))
     \<and> exit_code (state_after (agent_onExit this opts False args p)) = exit_code p"
  using run_listeners_returning [OF assms, of this opts args p]
  by (simp add: agent_onExit_def emit_exit_def)

lemma agent_onExit_alive:
  assumes "alive_inv p" "exit_code p = None" "this < length (instances p)"
  shows "agent_onExit this opts ex args p = Returned (state_after (agent_onExit this opts ex args p))
     \<and> alive_inv (state_after (agent_onExit this opts ex args p))"
proof -
  from assms(1,2) have ar: "all_returning (instances p)" by (simp add: alive_inv_def)
  with assms(3) have r: "\<forall>l \<in> set (instances p ! this). returning l"
    by (simp add: all_returning_nth)
  show ?thesis
  proof (cases ex)
    case True
    with agent_onExit_forced [OF assms(3) r, of opts args] show ?thesis
      by (simp add: alive_inv_def)
  next
    case False
    from run_listeners_instances [OF r ar, of this opts args]
    have "all_returning (instances (state_after (agent_onExit this opts False args p)))"
      by (simp add: agent_onExit_def emit_exit_def)
    with False agent_onExit_passive [OF r, of opts args] show ?thesis
      by (simp add: alive_inv_def)
  qed
qed

lemma agent_onMessage_alive:
  assumes "alive_inv p" "exit_code p = None" "this < length (instances p)"
  shows "agent_onMessage this msg p = Returned (state_after (agent_onMessage this msg p))
     \<and> alive_inv (state_after (agent_onMessage this msg p))"
  using assms agent_onExit_alive [OF assms, of Requested True "[]"]
  by (cases "m_type msg")
    (simp_all add: agent_onMessage_def agent_onSystemMessage_def alive_inv_def)

lemma call_handler_alive:
  assumes "alive_inv p" "exit_code p = None" "0 < length (instances p)"
    and "h \<in> snd ` set (agent_handlers 0)"
  shows "call_handler h ev p = Returned (state_after (call_handler h ev p))
     \<and> alive_inv (state_after (call_handler h ev p))"
proof (cases h)
  case (HandleMessage this)
  with assms(4) have "this = 0" by (auto simp: agent_handlers_def)
  with HandleMessage agent_onMessage_alive [OF assms(1,2,3)] assms(1) show ?thesis
    by (cases ev) (simp_all add: call_handler_def)
next
  case (HandleExit this opts ex)
  with assms(4) have "this = 0" by (auto simp: agent_handlers_def)
  with HandleExit agent_onExit_alive [OF assms(1,2,3)] show ?thesis
    by (simp add: call_handler_def)
qed

lemma call_handlers_alive:
  assumes "alive_inv p" "0 < length (instances p)" "set hs \<subseteq> snd ` set (agent_handlers 0)"
  shows "call_handlers hs ev p = Returned (state_after (call_handlers hs ev p))
     \<and> alive_inv (state_after (call_handlers hs ev p))"
  using assms
proof (induction hs arbitrary: p)
  case Nil
  then show ?case by simp
next
  case (Cons h hs)
  show ?case
  proof (cases "exit_code p = None")
    case False
    with Cons.prems(1) show ?thesis by auto
  next
    case True
    let ?q = "state_after (call_handler h ev p)"
    from Cons.prems have h: "h \<in> snd ` set (agent_handlers 0)" by simp
    note c = call_handler_alive [OF Cons.prems(1) True Cons.prems(2) h, of ev]
    have "same_frame p ?q" by (rule call_handler_frame)
    with Cons.prems(2) have l: "0 < length (instances ?q)" by (simp add: same_frame_def)
    from Cons.prems(3) have s: "set hs \<subseteq> snd ` set (agent_handlers 0)" by simp
    from c have r: "call_handler h ev p = Returned ?q" and a: "alive_inv ?q" by simp_all
    have "call_handlers (h # hs) ev p = call_handlers hs ev ?q"
      using True by (cases "call_handler h ev p") (use r in simp_all)
    with Cons.IH [OF a l s] show ?thesis by (simp only:)
  qed
qed

lemma deliver_alive:
  assumes "alive_inv p" "single_inv cs p"
  shows "alive_inv (deliver ev p)"
proof (cases "has_been_created p")
  case False
  with assms(2) have "deliver ev p = p" by (simp add: single_inv_def deliver_no_handlers)
  with assms(1) show ?thesis by simp
next
  case True
  with assms(2) have hs: "handlers p = agent_handlers 0" and l: "0 < length (instances p)"
    by (simp_all add: single_inv_def)
  let ?hs = "map snd (filter (\<lambda>(n, h). n = event_name ev) (handlers p))"
  have "set ?hs \<subseteq> snd ` set (agent_handlers 0)" by (auto simp: hs)
  from call_handlers_alive [OF assms(1) l this, of ev]
  have "process_emit ev p = Returned (state_after (process_emit ev p))"
    and "alive_inv (state_after (process_emit ev p))"
    by (simp_all add: process_emit_def)
  then show ?thesis by (cases "process_emit ev p") (simp_all add: deliver_def)
qed

lemma wstep_alive:
  assumes "alive_inv p" "single_inv cs p" "\<not> adds_throwing c"
  shows "alive_inv (wstep p c)"
proof (cases "exit_code p = None")
  case False
  with assms(1) show ?thesis by (simp add: wstep_def)
next
  case True
  with assms(1) have ar: "all_returning (instances p)" by (simp add: alive_inv_def)
  show ?thesis
  proof (cases c)
    case Construct
    from ar have "all_returning (instances p @ [[]])" by (simp add: all_returning_def)
    with assms(1) True Construct show ?thesis
      by (simp add: wstep_def new_Worker_def alive_inv_def Let_def)
  next
    case (AddOn this f b)
    with assms(3) have b: "b = Returns" by (cases b) simp_all
    have "all_returning ((instances p)[this := instances p ! this @ [UserOn f Returns]])"
      using ar by (rule all_returning_update) (use ar in \<open>simp add: all_returning_nth\<close>)
    with assms(1) True AddOn b show ?thesis by (simp add: wstep_def alive_inv_def)
  next
    case (AddOnce this f b)
    with assms(3) have b: "b = Returns" by (cases b) simp_all
    have "all_returning ((instances p)[this := instances p ! this @ [UserOnce f Returns]])"
      using ar by (rule all_returning_update) (use ar in \<open>simp add: all_returning_nth\<close>)
    with assms(1) True AddOnce b show ?thesis by (simp add: wstep_def alive_inv_def)
  next
    case (Deliver ev)
    with True deliver_alive [OF assms(1,2), of ev] show ?thesis by (simp add: wstep_def)
  qed
qed

lemma wrun_alive:
  "\<forall>c \<in> set cs. \<not> adds_throwing c \<Longrightarrow> alive_inv (wrun fresh_process cs)"
proof (induction cs rule: rev_induct)
  case Nil
  show ?case by (simp add: alive_inv_def all_returning_def wrun_def fresh_process_def)
next
  case (snoc c cs)
  then have "alive_inv (wrun fresh_process cs)" "\<not> adds_throwing c" by simp_all
  from wstep_alive [OF this(1) wrun_single_inv this(2)] show ?case by (simp only: wrun_snoc)
qed


text \<open>
  In a process whose application listeners all return, with the agent constructed and the
  process alive, and \<open>ls\<close> the \<^verbatim>\<open>exit\<close> listeners registered so far: an EXIT system
  call runs every listener of \<open>ls\<close> in order with \<^verbatim>\<open>{requested: true}\<close> and only then
  calls \<^verbatim>\<open>process.exit(0)\<close>; an uncaught error seen by the monitoring hook runs them
  with \<^verbatim>\<open>{error: true}\<close> and the process does not exit; a signal of
  \<^verbatim>\<open>CATCH_SIGNALS\<close> and the loss of the channel run them with their classification
  and then exit with code 0.
\<close>

lemma returning_listeners_notifications:
  assumes "p = wrun fresh_process cs" and "Construct \<in> set cs" and "exit_code p = None"
    and "\<forall>c \<in> set cs. \<not> adds_throwing c"
    and "ls = instances p ! 0"
  shows "(m_type msg = TypeNull \<and> m_call msg = Some EXIT \<longrightarrow>
            observed (wstep p (Deliver (PMessage msg)))
              = observed p @ map (\<lambda>f. Ran f Requested []) (user_tokens ls) @ [ProcessExit 0]
            \<and> exit_code (wstep p (Deliver (PMessage msg))) = Some 0)
    \<and> (observed (wstep p (Deliver (PUncaughtExceptionMonitor err origin)))
              = observed p @ map (\<lambda>f. Ran f Errored [AStr err, AStr origin]) (user_tokens ls)
          \<and> exit_code (wstep p (Deliver (PUncaughtExceptionMonitor err origin))) = None)
    \<and> (sig \<in> set CATCH_SIGNALS \<longrightarrow>
            observed (wstep p (Deliver (PSignal (''SIG'' @ sig) k)))
              = observed p
                @ map (\<lambda>f. Ran f (Signalled (''SIG'' @ sig)) [AStr (''SIG'' @ sig), ANum k]) (user_tokens ls)
                @ [ProcessExit 0]
            \<and> exit_code (wstep p (Deliver (PSignal (''SIG'' @ sig) k))) = Some 0)
    \<and> (observed (wstep p (Deliver PDisconnect))
              = observed p @ map (\<lambda>f. Ran f Disconnected []) (user_tokens ls) @ [ProcessExit 0]
          \<and> exit_code (wstep p (Deliver PDisconnect)) = Some 0)"
proof -
  have si: "single_inv cs p" unfolding assms(1) by (rule wrun_single_inv)
  have ai: "alive_inv p" unfolding assms(1) using assms(4) by (rule wrun_alive)
  from si assms(2) have len: "0 < length (instances p)" and hs: "handlers p = agent_handlers 0"
    by (simp_all add: single_inv_def)
  from ai assms(3) have "all_returning (instances p)" by (simp add: alive_inv_def)
  then have ret: "\<forall>l \<in> set (instances p ! 0). returning l"
    using len by (rule all_returning_nth)
  have step: "wstep p (Deliver ev) = deliver ev p" for ev
    using assms(3) by (simp add: wstep_def)
  have forced: "observed (deliver ev p)
        = observed p @ map (\<lambda>f. Ran f opts args) (user_tokens ls) @ [ProcessExit 0]
      \<and> exit_code (deliver ev p) = Some 0"
    if "process_emit ev p = agent_onExit 0 opts True args p" for ev opts args
    using agent_onExit_forced [OF len ret, of opts args]
    by (cases "agent_onExit 0 opts True args p") (simp_all add: deliver_def that assms(5))
  have exit_call: "observed (wstep p (Deliver (PMessage msg)))
              = observed p @ map (\<lambda>f. Ran f Requested []) (user_tokens ls) @ [ProcessExit 0]
            \<and> exit_code (wstep p (Deliver (PMessage msg))) = Some 0"
    if "m_type msg = TypeNull" "m_call msg = Some EXIT"
  proof -
    have "process_emit (PMessage msg) p = agent_onExit 0 Requested True [] p"
      using that
      by (simp add: process_emit_message [OF hs assms(3)] agent_onMessage_def
          agent_onSystemMessage_def)
    from forced [OF this] show ?thesis by (simp only: step)
  qed
  have uncaught: "observed (wstep p (Deliver (PUncaughtExceptionMonitor err origin)))
              = observed p @ map (\<lambda>f. Ran f Errored [AStr err, AStr origin]) (user_tokens ls)
          \<and> exit_code (wstep p (Deliver (PUncaughtExceptionMonitor err origin))) = None"
    using agent_onExit_passive [OF ret, of Errored "[AStr err, AStr origin]"] assms(3)
    by (cases "agent_onExit 0 Errored False [AStr err, AStr origin] p")
      (simp_all add: step deliver_def process_emit_monitor [OF hs assms(3)] assms(5))
  have signal: "observed (wstep p (Deliver (PSignal (''SIG'' @ sig) k)))
              = observed p
                @ map (\<lambda>f. Ran f (Signalled (''SIG'' @ sig)) [AStr (''SIG'' @ sig), ANum k]) (user_tokens ls)
                @ [ProcessExit 0]
            \<and> exit_code (wstep p (Deliver (PSignal (''SIG'' @ sig) k))) = Some 0"
    if "sig \<in> set CATCH_SIGNALS"
    using forced [OF process_emit_signal [OF hs assms(3) that, of k]] by (simp only: step)
  have disconnect: "observed (wstep p (Deliver PDisconnect))
              = observed p @ map (\<lambda>f. Ran f Disconnected []) (user_tokens ls) @ [ProcessExit 0]
          \<and> exit_code (wstep p (Deliver PDisconnect)) = Some 0"
    using forced [OF process_emit_disconnect [OF hs assms(3)]] by (simp only: step)
  from exit_call have a: "m_type msg = TypeNull \<and> m_call msg = Some EXIT \<longrightarrow>
            observed (wstep p (Deliver (PMessage msg)))
              = observed p @ map (\<lambda>f. Ran f Requested []) (user_tokens ls) @ [ProcessExit 0]
            \<and> exit_code (wstep p (Deliver (PMessage msg))) = Some 0"
    by (intro impI) (elim conjE)
  from signal have c: "sig \<in> set CATCH_SIGNALS \<longrightarrow>
            observed (wstep p (Deliver (PSignal (''SIG'' @ sig) k)))
              = observed p
                @ map (\<lambda>f. Ran f (Signalled (''SIG'' @ sig)) [AStr (''SIG'' @ sig), ANum k]) (user_tokens ls)
                @ [ProcessExit 0]
            \<and> exit_code (wstep p (Deliver (PSignal (''SIG'' @ sig) k))) = Some 0"
    by (rule impI)
  show ?thesis by (rule conjI [OF a conjI [OF uncaught conjI [OF c disconnect]]])
qed

lemma example_process:
  "wrun fresh_process example_commands =
     \<lparr>has_been_created = True, instances = [[UserOn 7 Returns, UserOnce 8 Returns]],
      handlers = agent_handlers 0, exit_code = None, observed = []\<rparr>"
  by (simp add: example_commands_def wrun_def wstep_def new_Worker_def fresh_process_def)

lemma returning_listeners_example:
  "observed (wstep (wrun fresh_process example_commands) (Deliver (PMessage example_exit_call)))
       = [Ran 7 Requested [], Ran 8 Requested [], ProcessExit 0]
   \<and> exit_code (wstep (wrun fresh_process example_commands) (Deliver (PMessage example_exit_call)))
       = Some 0
   \<and> observed (wstep (wrun fresh_process example_commands)
         (Deliver (PUncaughtExceptionMonitor ''boom'' ''uncaughtException'')))
       = [Ran 7 Errored [AStr ''boom'', AStr ''uncaughtException''],
          Ran 8 Errored [AStr ''boom'', AStr ''uncaughtException'']]
   \<and> exit_code (wstep (wrun fresh_process example_commands)
         (Deliver (PUncaughtExceptionMonitor ''boom'' ''uncaughtException''))) = None"
proof -
  let ?p = "wrun fresh_process example_commands"
  have h2: "Construct \<in> set example_commands" by (simp add: example_commands_def)
  have h3: "exit_code ?p = None" by (simp add: example_process)
  have h4: "\<forall>c \<in> set example_commands. \<not> adds_throwing c" by (simp add: example_commands_def)
  have m: "m_type example_exit_call = TypeNull \<and> m_call example_exit_call = Some EXIT"
    by (simp add: example_exit_call_def)
  have u: "user_tokens (instances ?p ! 0) = [7, 8]" "observed ?p = []"
    by (simp_all add: example_process user_tokens_def)
  from returning_listeners_notifications [OF refl h2 h3 h4 refl, of example_exit_call
      "''boom''" "''uncaughtException''" "''TERM''" 15] m
  show ?thesis by (simp add: u)
qed

subsection \<open>The two sides of the EXIT call\<close>

text \<open>
  \<^verbatim>\<open>#terminateWorker\<close> puts the constant under the field \<^verbatim>\<open>system\<close>, while the
  agent reads the field \<^verbatim>\<open>call\<close>: the envelope the Supervisor sends has no
  \<^verbatim>\<open>call\<close>, and a live agent that receives it does nothing.
\<close>

lemma agent_ignores_system_field:
  assumes "p = wrun fresh_process cs" and "Construct \<in> set cs" and "exit_code p = None"
  shows "wstep p (Deliver (PMessage (exit_envelope k))) = p"
proof -
  have "single_inv cs p" unfolding assms(1) by (rule wrun_single_inv)
  with assms(2) have hs: "handlers p = agent_handlers 0" by (simp add: single_inv_def)
  have "process_emit (PMessage (exit_envelope k)) p = Returned p"
    by (simp add: process_emit_message [OF hs assms(3)] agent_onMessage_def
        agent_onSystemMessage_def exit_envelope_def)
  then show ?thesis using assms(3) by (simp add: wstep_def deliver_def)
qed

end
